theory Spec2Isabelle
  imports Complex_Main "HOL-Library.Word"
begin

section \<open>Vision board: rendering and export pipeline\<close>

text \<open>
  A shallow embedding of the rendering and export code of the vision board
  (\<^verbatim>\<open>vision-board/utils/canvas-export.ts\<close>, \<^verbatim>\<open>vision-board/constants.ts\<close>,
  \<^verbatim>\<open>vision-board/texture-utils.ts\<close>, \<^verbatim>\<open>vision-board/SlotComponents.tsx\<close>,
  \<^verbatim>\<open>App.tsx\<close>, \<^verbatim>\<open>types.ts\<close>).

  In the layout code a JavaScript \<^verbatim>\<open>number\<close> is modelled as a \<^typ>\<open>real\<close>: finite
  values with exact arithmetic; how IEEE doubles round is outside that part of the model.
\<close>

subsection \<open>Scene graph (\<^verbatim>\<open>canvas-export.ts\<close>)\<close>

text \<open>
  A PixiJS container with the two attributes the export reads and writes, and its
  children. Every scene object of PixiJS 8 is a \<^verbatim>\<open>Container\<close>, and a container has at
  most one parent, so the scene graph below a container is a tree. A reference to a
  node below a container is the path of child indices that leads to it.
\<close>

datatype container = Container (zIndex: real) (visible: bool) (children: "container list")

type_synonym node_ref = "nat list"

text \<open>
  \<^verbatim>\<open>hideHudElements(container)\<close>: the loop over \<^verbatim>\<open>container.children\<close> is \<open>hide_children\<close>
  (the first argument is the index of the next child), its body is \<open>hide_child\<close>. The
  source mutates the nodes in place and returns the hidden nodes; the model returns the
  updated children together with the references of the hidden nodes, in the order of
  the \<^verbatim>\<open>push\<close> calls.
\<close>

fun hide_child :: "nat \<Rightarrow> container \<Rightarrow> container \<times> node_ref list"
  and hide_children :: "nat \<Rightarrow> container list \<Rightarrow> container list \<times> node_ref list" where
  "hide_child i (Container z v cs) =
     (let hide = (z \<ge> 1000 \<and> v);
          (cs', hidden) = (if cs \<noteq> [] then hide_children 0 cs else (cs, []))
      in (Container z (if hide then False else v) cs',
          (if hide then [[i]] else []) @ map ((#) i) hidden))"
| "hide_children i [] = ([], [])"
| "hide_children i (child # rest) =
     (let (child', hidden) = hide_child i child;
          (rest', hidden') = hide_children (Suc i) rest
      in (child' # rest', hidden @ hidden'))"

definition hideHudElements :: "container \<Rightarrow> container \<times> node_ref list" where
  "hideHudElements c =
     (let (cs', hidden) = hide_children 0 (children c)
      in (Container (zIndex c) (visible c) cs', hidden))"

text \<open>\<^verbatim>\<open>element.visible = true\<close> for the node a reference points to.\<close>

fun show_element :: "node_ref \<Rightarrow> container \<Rightarrow> container" where
  "show_element [] (Container z v cs) = Container z True cs"
| "show_element (i # p) (Container z v cs) =
     (if i < length cs then Container z v (cs[i := show_element p (cs ! i)])
      else Container z v cs)"

text \<open>
  \<^verbatim>\<open>restoreHudElements(elements)\<close>; the elements are references to nodes below
  the container given as second argument.
\<close>

definition restoreHudElements :: "node_ref list \<Rightarrow> container \<Rightarrow> container" where
  "restoreHudElements elements c = fold show_element elements c"

text \<open>
  The nodes below a container in the order of the walk, each with its reference, its
  \<^verbatim>\<open>zIndex\<close> and its \<^verbatim>\<open>visible\<close> flag. This is the vocabulary of the
  statements about the scene graph, not part of the source.
\<close>

definition below :: "nat \<Rightarrow> node_ref \<times> real \<times> bool \<Rightarrow> node_ref \<times> real \<times> bool" where
  "below i n = (case n of (p, z, v) \<Rightarrow> (i # p, z, v))"

fun nodes_of :: "nat \<Rightarrow> container \<Rightarrow> (node_ref \<times> real \<times> bool) list"
  and nodes_list :: "nat \<Rightarrow> container list \<Rightarrow> (node_ref \<times> real \<times> bool) list" where
  "nodes_of i (Container z v cs) =
     ([i], z, v) # map (below i) (nodes_list 0 cs)"
| "nodes_list i [] = []"
| "nodes_list i (c # rest) = nodes_of i c @ nodes_list (Suc i) rest"

definition nodes_below :: "container \<Rightarrow> (node_ref \<times> real \<times> bool) list" where
  "nodes_below c = nodes_list 0 (children c)"

definition is_hud :: "node_ref \<times> real \<times> bool \<Rightarrow> bool" where
  "is_hud n = (case n of (p, z, v) \<Rightarrow> z \<ge> 1000)"

definition hud_hidden :: "node_ref \<times> real \<times> bool \<Rightarrow> node_ref \<times> real \<times> bool" where
  "hud_hidden n = (case n of (p, z, v) \<Rightarrow> (p, z, v \<and> \<not> z \<ge> 1000))"

definition shown :: "node_ref \<times> real \<times> bool \<Rightarrow> bool" where
  "shown n = (case n of (p, z, v) \<Rightarrow> v)"

subsection \<open>Export (\<^verbatim>\<open>exportCanvasAsImage\<close>)\<close>

definition POSTER_WIDTH :: real where "POSTER_WIDTH = 1800"
definition POSTER_HEIGHT :: real where "POSTER_HEIGHT = 2400"
definition EXPORT_WIDTH :: real where "EXPORT_WIDTH = 5400"
definition EXPORT_HEIGHT :: real where "EXPORT_HEIGHT = 7200"

text \<open>
  The part of the PixiJS application the export touches: the stage (the root container
  of the scene graph) and the scale and position of the stage.
\<close>

record application =
  stage :: container
  stage_scale :: "real \<times> real"
  stage_position :: "real \<times> real"

datatype error = Error string

datatype blob = Blob "8 word list"

text \<open>
  What the browser and the renderer do in one export is a parameter: for each call
  that can throw, the error it throws if any, and for \<^verbatim>\<open>canvas.toBlob\<close> either the
  error it throws or the argument its callback is later called with (\<open>None\<close> is the
  \<^verbatim>\<open>null\<close> blob).
\<close>

record platform =
  RenderTexture_create :: "error option"
  renderer_render :: "error option"
  extract_canvas :: "error option"
  canvas_toBlob :: "error + blob option"

datatype promise = Resolved | Rejected error

text \<open>
  What can be observed of one export, in the order in which it happens: errors written
  to the console, the offscreen render (with the application as it is at that moment),
  the settling of the returned promise, and the download started by \<^verbatim>\<open>a.click()\<close>.
\<close>

datatype event =
    ConsoleError string
  | Rendered application
  | Settled promise
  | Download string blob

record export_run =
  promise :: promise
  app_after :: "application option"
  events :: "event list"

text \<open>The \<^verbatim>\<open>catch\<close> block: log the error and throw it again.\<close>

definition export_failed :: "error \<Rightarrow> application \<Rightarrow> event list \<Rightarrow> export_run" where
  "export_failed e a evs =
     \<lparr>promise = Rejected e, app_after = Some a,
      events = evs @ [ConsoleError ''Failed to export canvas:'', Settled (Rejected e)]\<rparr>"

text \<open>The callback given to \<^verbatim>\<open>canvas.toBlob\<close>.\<close>

definition blob_callback :: "string \<Rightarrow> blob option \<Rightarrow> event list" where
  "blob_callback filename b =
     (case b of
        None \<Rightarrow> [ConsoleError ''Failed to create blob'']
      | Some bl \<Rightarrow> [Download filename bl])"

text \<open>
  \<^verbatim>\<open>exportCanvasAsImage(app, filename)\<close>. The callback of \<^verbatim>\<open>canvas.toBlob\<close> is run by
  the browser in a later task, after the \<^verbatim>\<open>async\<close> function has returned and its
  promise has settled; its events therefore follow \<open>Settled\<close>.
\<close>

definition exportCanvasAsImage :: "platform \<Rightarrow> application option \<Rightarrow> string \<Rightarrow> export_run" where
  "exportCanvasAsImage pf app filename =
     (case app of
        None \<Rightarrow>
          \<lparr>promise = Resolved, app_after = None,
           events = [ConsoleError ''Application instance is null'', Settled Resolved]\<rparr>
      | Some a \<Rightarrow>
          (let scaleX = EXPORT_WIDTH / POSTER_WIDTH;
               scaleY = EXPORT_HEIGHT / POSTER_HEIGHT
           in case RenderTexture_create pf of
                Some e \<Rightarrow> export_failed e a []
              | None \<Rightarrow>
                  (let (stage', hiddenElements) = hideHudElements (stage a);
                       a1 = a\<lparr>stage := stage'\<rparr>;
                       originalScale = stage_scale a1;
                       originalPosition = stage_position a1;
                       a2 = a1\<lparr>stage_scale := (scaleX, scaleY), stage_position := (0, 0)\<rparr>
                   in case renderer_render pf of
                        Some e \<Rightarrow> export_failed e a2 []
                      | None \<Rightarrow>
                          (let a3 = a2\<lparr>stage_scale := originalScale,
                                         stage_position := originalPosition\<rparr>;
                               a4 = a3\<lparr>stage := restoreHudElements hiddenElements (stage a3)\<rparr>
                           in case extract_canvas pf of
                                Some e \<Rightarrow> export_failed e a4 [Rendered a2]
                              | None \<Rightarrow>
                                  (case canvas_toBlob pf of
                                     Inl e \<Rightarrow> export_failed e a4 [Rendered a2]
                                   | Inr b \<Rightarrow>
                                       \<lparr>promise = Resolved, app_after = Some a4,
                                        events = [Rendered a2, Settled Resolved]
                                                 @ blob_callback filename b\<rparr>)))))"

text \<open>Whether a run started a download.\<close>

fun is_download :: "event \<Rightarrow> bool" where
  "is_download (Download f b) = True"
| "is_download e = False"

definition download_initiated :: "export_run \<Rightarrow> bool" where
  "download_initiated r = (filter is_download (events r) \<noteq> [])"

text \<open>
  The error of the first call that throws, in the order of the calls in the
  \<^verbatim>\<open>try\<close> block: \<^verbatim>\<open>RenderTexture.create\<close>, \<^verbatim>\<open>renderer.render\<close>,
  \<^verbatim>\<open>renderer.extract.canvas\<close>, \<^verbatim>\<open>canvas.toBlob\<close>.
\<close>

definition thrown :: "platform \<Rightarrow> error option" where
  "thrown pf =
     (case RenderTexture_create pf of
        Some e \<Rightarrow> Some e
      | None \<Rightarrow>
          (case renderer_render pf of
             Some e \<Rightarrow> Some e
           | None \<Rightarrow>
               (case extract_canvas pf of
                  Some e \<Rightarrow> Some e
                | None \<Rightarrow>
                    (case canvas_toBlob pf of
                       Inl e \<Rightarrow> Some e
                     | Inr b \<Rightarrow> None))))"

text \<open>Inputs for the closed examples: a scene with a selected slot, and a platform.\<close>

definition example_stage :: container where
  "example_stage =
     Container 0 True
       [Container 0 True [],
        Container 0 True
          [Container 500 True [Container 1 True [], Container 1000 True []],
           Container 50 True [Container 1 True [], Container 1000 False []]]]"

definition example_app :: application where
  "example_app = \<lparr>stage = example_stage, stage_scale = (1, 1), stage_position = (0, 0)\<rparr>"

definition working_platform :: platform where
  "working_platform =
     \<lparr>RenderTexture_create = None, renderer_render = None, extract_canvas = None,
      canvas_toBlob = Inr (Some (Blob [0x89, 0x50, 0x4E, 0x47]))\<rparr>"

subsection \<open>Constants and the seeded value (\<^verbatim>\<open>constants.ts\<close>)\<close>

definition MIN_DIM :: real where "MIN_DIM = min POSTER_WIDTH POSTER_HEIGHT"
definition DREAM_BASE_SIZE :: real where "DREAM_BASE_SIZE = MIN_DIM * 0.38"
definition CORE_BASE_SIZE :: real where "CORE_BASE_SIZE = MIN_DIM * 0.48"

record preset =
  pos_x :: real
  pos_y :: real
  pos_size :: real

definition DREAM_POSITIONS :: "preset list" where
  "DREAM_POSITIONS =
    [\<lparr>pos_x = -0.32, pos_y = -0.38, pos_size = 1.15\<rparr>,
     \<lparr>pos_x = 0.0, pos_y = -0.40, pos_size = 1.1\<rparr>,
     \<lparr>pos_x = 0.32, pos_y = -0.38, pos_size = 1.15\<rparr>,
     \<lparr>pos_x = -0.38, pos_y = -0.18, pos_size = 1.1\<rparr>,
     \<lparr>pos_x = 0.38, pos_y = -0.16, pos_size = 1.05\<rparr>,
     \<lparr>pos_x = -0.40, pos_y = 0.08, pos_size = 1.15\<rparr>,
     \<lparr>pos_x = 0.40, pos_y = 0.06, pos_size = 1.1\<rparr>,
     \<lparr>pos_x = -0.38, pos_y = 0.30, pos_size = 1.05\<rparr>,
     \<lparr>pos_x = 0.38, pos_y = 0.28, pos_size = 1.1\<rparr>,
     \<lparr>pos_x = -0.32, pos_y = 0.42, pos_size = 1.15\<rparr>,
     \<lparr>pos_x = 0.0, pos_y = 0.44, pos_size = 1.1\<rparr>,
     \<lparr>pos_x = 0.32, pos_y = 0.42, pos_size = 1.15\<rparr>,
     \<lparr>pos_x = -0.22, pos_y = -0.28, pos_size = 0.95\<rparr>,
     \<lparr>pos_x = 0.22, pos_y = 0.28, pos_size = 0.95\<rparr>]"

text \<open>\<^verbatim>\<open>seededRandom\<close> on a finite number.\<close>

definition seededRandom :: "real \<Rightarrow> real" where
  "seededRandom seed = (let x = sin (seed * 9999) * 10000 in x - of_int \<lfloor>x\<rfloor>)"

subsection \<open>Slot configuration (\<^verbatim>\<open>types.ts\<close>)\<close>

text \<open>
  \<^verbatim>\<open>SlotConfig\<close>; the fields \<^verbatim>\<open>image\<close> and \<^verbatim>\<open>size\<close> carry a suffix because their
  names are taken.
\<close>

record SlotConfig =
  image_field :: "string option"
  size_field :: real
  zoom :: real
  opacity :: real
  blur :: real
  glowIntensity :: real
  offsetX :: real
  offsetY :: real
  rotation :: real
  saturation :: real
  brightness :: real
  contrast :: real
  positionIndex :: int

definition DEFAULT_SLOT_CONFIG :: SlotConfig where
  "DEFAULT_SLOT_CONFIG =
     \<lparr>image_field = None, size_field = 1.0, zoom = 1.0, opacity = 1.0, blur = 0,
      glowIntensity = 0.25, offsetX = 0, offsetY = 0, rotation = 0, saturation = 1.0,
      brightness = 1.0, contrast = 1.0, positionIndex = 0\<rparr>"

record Config =
  core :: SlotConfig
  dreams :: "SlotConfig list"

subsection \<open>Slot layout and selection ring (\<^verbatim>\<open>SlotComponents.tsx\<close>)\<close>

text \<open>\<^verbatim>\<open>v || d\<close> on numbers: \<open>0\<close> is falsy.\<close>

definition or_number :: "real \<Rightarrow> real \<Rightarrow> real" where
  "or_number v d = (if v = 0 then d else v)"

text \<open>One \<^verbatim>\<open>g.circle(0, 0, r); g.stroke({color, width, alpha})\<close> of \<^verbatim>\<open>drawRing\<close>.\<close>

record ring_stroke =
  ring_radius :: real
  ring_color :: nat
  ring_width :: real
  ring_alpha :: real

record graphics =
  graphics_zIndex :: real
  strokes :: "ring_stroke list"

definition drawRing :: "real \<Rightarrow> ring_stroke list" where
  "drawRing radius =
     [\<lparr>ring_radius = radius + 20, ring_color = 0x3b82f6, ring_width = 4, ring_alpha = 0.25\<rparr>,
      \<lparr>ring_radius = radius + 12, ring_color = 0x3b82f6, ring_width = 5, ring_alpha = 0.5\<rparr>,
      \<lparr>ring_radius = radius + 8, ring_color = 0x60a5fa, ring_width = 2, ring_alpha = 0.8\<rparr>]"

text \<open>\<^verbatim>\<open>HighlightRing({radius, visible})\<close>; \<open>None\<close> is the \<^verbatim>\<open>null\<close> it renders when not visible.\<close>

definition HighlightRing :: "real \<Rightarrow> bool \<Rightarrow> graphics option" where
  "HighlightRing radius visible' =
     (if \<not> visible' then None
      else Some \<lparr>graphics_zIndex = 1000, strokes = drawRing radius\<rparr>)"

text \<open>
  The container a slot component renders: its placement, the base size handed to the
  image or placeholder inside it, and its highlight ring. For a dream slot the record
  also keeps the intermediate values of the layout computation.
\<close>

record slot_container =
  slot_x :: real
  slot_y :: real
  slot_rotation :: real
  slot_zIndex :: real
  slot_baseSize :: real
  slot_ring :: "graphics option"

record dream_container = slot_container +
  posMultiplier :: real
  baseX :: real
  baseY :: real
  baseRotation :: real

definition CoreSlot :: "SlotConfig \<Rightarrow> bool \<Rightarrow> slot_container" where
  "CoreSlot config isSelected =
     (let offsetX' = or_number (offsetX config) 0;
          offsetY' = or_number (offsetY config) 0;
          rotationDeg = or_number (rotation config) 0;
          rotationRad = (rotationDeg * pi) / 180
      in \<lparr>slot_x = offsetX', slot_y = offsetY', slot_rotation = rotationRad,
          slot_zIndex = 500, slot_baseSize = CORE_BASE_SIZE,
          slot_ring = HighlightRing (CORE_BASE_SIZE * 0.6 * or_number (size_field config) 1)
                         isSelected\<rparr>)"

text \<open>
  \<^verbatim>\<open>DreamSlot({index, config, isSelected})\<close>; \<open>None\<close> is the \<^verbatim>\<open>null\<close> it renders when
  \<^verbatim>\<open>DREAM_POSITIONS[index]\<close> is undefined.
\<close>

definition DreamSlot :: "int \<Rightarrow> SlotConfig \<Rightarrow> bool \<Rightarrow> dream_container option" where
  "DreamSlot index config isSelected =
     (if \<not> (0 \<le> index \<and> nat index < length DREAM_POSITIONS) then None
      else
        (let pos = DREAM_POSITIONS ! nat index;
             posMultiplier' = pos_size pos * (0.8 + seededRandom (of_int index * 17) * 0.4);
             baseSlotSize = DREAM_BASE_SIZE * posMultiplier';
             baseX' = pos_x pos * POSTER_WIDTH
                      + (seededRandom (of_int index * 7) - 0.5) * POSTER_WIDTH * 0.04;
             baseY' = pos_y pos * POSTER_HEIGHT
                      + (seededRandom (of_int index * 13) - 0.5) * POSTER_HEIGHT * 0.04;
             x = baseX' + or_number (offsetX config) 0;
             y = baseY' + or_number (offsetY config) 0;
             baseRotation' = (seededRandom (of_int index * 23) - 0.5) * 0.9;
             configRotationRad = (or_number (rotation config) 0 * pi) / 180;
             rotation' = baseRotation' + configRotationRad
         in Some \<lparr>slot_x = x, slot_y = y, slot_rotation = rotation',
                  slot_zIndex = (if isSelected then 200 + of_int index else 50 + of_int index),
                  slot_baseSize = baseSlotSize,
                  slot_ring = HighlightRing ((baseSlotSize / 2) * or_number (size_field config) 1)
                                 isSelected,
                  posMultiplier = posMultiplier', baseX = baseX', baseY = baseY',
                  baseRotation = baseRotation'\<rparr>))"

text \<open>A slot configuration for the closed examples.\<close>

definition example_slot :: SlotConfig where
  "example_slot =
     DEFAULT_SLOT_CONFIG\<lparr>size_field := 1.5, offsetX := 10, offsetY := - 5, rotation := 90\<rparr>"

subsection \<open>JavaScript numbers\<close>

text \<open>
  Where a property depends on how a computed value is rounded, a JavaScript \<^verbatim>\<open>number\<close>
  is modelled as what it is, an IEEE 754 binary64 value: a finite value, an infinity with
  its sign (\<open>True\<close> for \<open>+\<close>) or NaN. The sign of a zero is not kept: no operation used
  below tells \<open>-0\<close> from \<open>+0\<close> except a division by it, and the divisors of this code
  (the smaller dimension of the image, \<^verbatim>\<open>maxRadius\<close>, \<^verbatim>\<open>0.6\<close>, and \<^verbatim>\<open>featherSize\<close> once
  it has been found positive) are never \<open>-0\<close>.
\<close>

datatype number = Finite real | Infinity bool | NaN

text \<open>
  Rounding to the nearest binary64 value, ties to the even significand. A value of
  magnitude in \<open>[2\<^sup>e, 2\<^sup>e\<^sup>+\<^sup>1)\<close> is rounded to a multiple of \<open>2\<^sup>e\<^sup>-\<^sup>5\<^sup>2\<close>, below \<open>2\<^sup>-\<^sup>1\<^sup>0\<^sup>2\<^sup>2\<close>
  (subnormal values) to a multiple of \<open>2\<^sup>-\<^sup>1\<^sup>0\<^sup>7\<^sup>4\<close>; a result of magnitude \<open>2\<^sup>1\<^sup>0\<^sup>2\<^sup>4\<close>
  is an overflow.
\<close>

definition round_even :: "real \<Rightarrow> int" where
  "round_even y =
     (let f = \<lfloor>y\<rfloor>; d = y - of_int f
      in if d < 1 / 2 then f else if 1 / 2 < d then f + 1 else if even f then f else f + 1)"

definition ulp_exponent :: "real \<Rightarrow> int" where
  "ulp_exponent x = max \<lfloor>log 2 \<bar>x\<bar>\<rfloor> (- 1022) - 52"

definition round_to_multiple :: "int \<Rightarrow> real \<Rightarrow> real" where
  "round_to_multiple e x = of_int (round_even (x / 2 powi e)) * 2 powi e"

definition overflow_threshold :: real where
  "overflow_threshold = 2 ^ 1024"

definition to_double :: "real \<Rightarrow> number" where
  "to_double x =
     (if x = 0 then Finite 0
      else
        (let r = round_to_multiple (ulp_exponent x) x
         in if overflow_threshold \<le> \<bar>r\<bar> then Infinity (0 < r) else Finite r))"

text \<open>
  The arithmetic operators \<^verbatim>\<open>+\<close>, \<^verbatim>\<open>-\<close>, \<^verbatim>\<open>*\<close> and \<^verbatim>\<open>/\<close>: the exact result, rounded, with
  the IEEE 754 rules for the values that are not finite.
\<close>

fun plus_number :: "number \<Rightarrow> number \<Rightarrow> number" where
  "plus_number (Finite a) (Finite b) = to_double (a + b)"
| "plus_number (Finite a) (Infinity q) = Infinity q"
| "plus_number (Infinity p) (Finite b) = Infinity p"
| "plus_number (Infinity p) (Infinity q) = (if p = q then Infinity p else NaN)"
| "plus_number NaN b = NaN"
| "plus_number a NaN = NaN"

fun minus_number :: "number \<Rightarrow> number \<Rightarrow> number" where
  "minus_number (Finite a) (Finite b) = to_double (a - b)"
| "minus_number (Finite a) (Infinity q) = Infinity (\<not> q)"
| "minus_number (Infinity p) (Finite b) = Infinity p"
| "minus_number (Infinity p) (Infinity q) = (if p = q then NaN else Infinity p)"
| "minus_number NaN b = NaN"
| "minus_number a NaN = NaN"

fun times_number :: "number \<Rightarrow> number \<Rightarrow> number" where
  "times_number (Finite a) (Finite b) = to_double (a * b)"
| "times_number (Finite a) (Infinity q) = (if a = 0 then NaN else Infinity (q = (0 < a)))"
| "times_number (Infinity p) (Finite b) = (if b = 0 then NaN else Infinity (p = (0 < b)))"
| "times_number (Infinity p) (Infinity q) = Infinity (p = q)"
| "times_number NaN b = NaN"
| "times_number a NaN = NaN"

fun divide_number :: "number \<Rightarrow> number \<Rightarrow> number" where
  "divide_number (Finite a) (Finite b) =
     (if b = 0 then (if a = 0 then NaN else Infinity (0 < a)) else to_double (a / b))"
| "divide_number (Finite a) (Infinity q) = Finite 0"
| "divide_number (Infinity p) (Finite b) = Infinity (p = (0 \<le> b))"
| "divide_number (Infinity p) (Infinity q) = NaN"
| "divide_number NaN b = NaN"
| "divide_number a NaN = NaN"

text \<open>The comparison \<^verbatim>\<open>a < b\<close>, false when an operand is NaN; \<^verbatim>\<open>a > b\<close> is \<^verbatim>\<open>b < a\<close>.\<close>

fun less_number :: "number \<Rightarrow> number \<Rightarrow> bool" where
  "less_number (Finite a) (Finite b) = (a < b)"
| "less_number (Finite a) (Infinity q) = q"
| "less_number (Infinity p) (Finite b) = (\<not> p)"
| "less_number (Infinity p) (Infinity q) = (\<not> p \<and> q)"
| "less_number NaN b = False"
| "less_number a NaN = False"

text \<open>
  \<^verbatim>\<open>Math.min\<close> of a list of arguments (NaN if one of them is, \<open>+\<infinity>\<close> for no argument),
  \<^verbatim>\<open>Math.floor\<close>, \<^verbatim>\<open>Math.sqrt\<close> and \<^verbatim>\<open>x ** 2\<close>. The square root and the square are the
  correctly rounded ones.
\<close>

fun min_number :: "number \<Rightarrow> number \<Rightarrow> number" where
  "min_number NaN b = NaN"
| "min_number a NaN = NaN"
| "min_number a b = (if less_number b a then b else a)"

definition Math_min :: "number list \<Rightarrow> number" where
  "Math_min xs = fold min_number xs (Infinity True)"

fun Math_floor :: "number \<Rightarrow> number" where
  "Math_floor (Finite a) = Finite (of_int \<lfloor>a\<rfloor>)"
| "Math_floor v = v"

fun Math_sqrt :: "number \<Rightarrow> number" where
  "Math_sqrt (Finite a) = (if a < 0 then NaN else to_double (sqrt a))"
| "Math_sqrt (Infinity p) = (if p then Infinity True else NaN)"
| "Math_sqrt NaN = NaN"

definition square_number :: "number \<Rightarrow> number" where
  "square_number x = times_number x x"

text \<open>
  \<^verbatim>\<open>Math.sin\<close>, which the language leaves to the implementation on finite arguments:
  \<open>msin\<close> is the sine of the platform, whose value is rounded to a number.
\<close>

fun Math_sin :: "(real \<Rightarrow> real) \<Rightarrow> number \<Rightarrow> number" where
  "Math_sin msin (Finite a) = to_double (msin a)"
| "Math_sin msin v = NaN"

text \<open>
  \<^verbatim>\<open>seededRandom\<close> on every number, also the ones that are not finite (the function
  has no guard on its argument).
\<close>

definition seededRandom_number :: "(real \<Rightarrow> real) \<Rightarrow> number \<Rightarrow> number" where
  "seededRandom_number msin seed =
     (let x = times_number (Math_sin msin (times_number seed (Finite 9999))) (Finite 10000)
      in minus_number x (Math_floor x))"

text \<open>\<^verbatim>\<open>0 <= v && v < 1\<close>, which is false for an infinity and for NaN.\<close>

fun in_unit_interval :: "number \<Rightarrow> bool" where
  "in_unit_interval (Finite r) = (0 \<le> r \<and> r < 1)"
| "in_unit_interval v = False"

text \<open>A finite value that binary64 represents is a multiple of the unit of its binade.\<close>

definition is_double :: "real \<Rightarrow> bool" where
  "is_double x = (x = 0 \<or> (\<exists>n :: int. x = of_int n * 2 powi ulp_exponent x))"

subsection \<open>Masked texture (\<^verbatim>\<open>texture-utils.ts\<close>)\<close>

text \<open>
  The texture code is modelled on numbers as they are computed: every arithmetic
  operation rounds, and a decimal literal such as \<^verbatim>\<open>0.4\<close> denotes the number nearest to
  it, \<open>to_double 0.4\<close>. An integer that the code uses as a number (a pixel coordinate, a
  dimension, a byte) is exact as long as it is below \<open>2\<^sup>5\<^sup>3\<close>.

  The circular fade of one pixel, from \<^verbatim>\<open>ratio = dist / maxRadius\<close>
  (the \<^verbatim>\<open>if\<close> chain that assigns \<^verbatim>\<open>circularAlpha\<close>).
\<close>

definition circularAlpha :: "number \<Rightarrow> number" where
  "circularAlpha ratio =
     (if less_number ratio (to_double 0.4) then Finite 1
      else if less_number (Finite 1) ratio then Finite 0
      else
        (let t = divide_number (minus_number ratio (to_double 0.4)) (to_double 0.6)
         in minus_number (Finite 1)
              (times_number (times_number t t)
                 (minus_number (Finite 3) (times_number (Finite 2) t)))))"

text \<open>
  The edge feathering of one pixel, from \<^verbatim>\<open>featherSize\<close> and \<^verbatim>\<open>minEdgeDist\<close>
  (the block that assigns \<^verbatim>\<open>edgeAlpha\<close>).
\<close>

definition edgeAlpha :: "number \<Rightarrow> number \<Rightarrow> number" where
  "edgeAlpha featherSize minEdgeDist =
     (if less_number (Finite 0) featherSize then
        (if less_number minEdgeDist (Finite 0) then Finite 0
         else if less_number minEdgeDist featherSize then
           (let t = divide_number minEdgeDist featherSize
            in times_number (times_number t t)
                 (minus_number (Finite 3) (times_number (Finite 2) t)))
         else Finite 1)
      else Finite 1)"

text \<open>
  The laws of the specification, in its words and in exact arithmetic: \<open>t\<^sup>2(3 - 2t)\<close> is
  the smoothstep; the circular alpha is 1 below ratio 0.4, 0 above ratio 1 and the
  inverted smoothstep of \<open>(ratio - 0.4) / 0.6\<close> otherwise; the edge alpha is 0 outside the
  rectangle, the smoothstep of \<open>distance / feather\<close> within \<open>feather\<close> of an edge and 1
  otherwise.
\<close>

definition smoothstep :: "real \<Rightarrow> real" where
  "smoothstep t = t\<^sup>2 * (3 - 2 * t)"

definition circular_law :: "real \<Rightarrow> real" where
  "circular_law ratio =
     (if ratio < 0.4 then 1 else if ratio > 1 then 0
      else 1 - smoothstep ((ratio - 0.4) / 0.6))"

definition edge_law :: "real \<Rightarrow> real \<Rightarrow> real" where
  "edge_law feather distance =
     (if distance < 0 then 0 else if distance < feather then smoothstep (distance / feather)
      else 1)"

text \<open>The rectangle the image is drawn into (\<^verbatim>\<open>imgLeft\<close>, \<^verbatim>\<open>imgRight\<close>, \<^verbatim>\<open>imgTop\<close>, \<^verbatim>\<open>imgBottom\<close>).\<close>

record image_bounds =
  imgLeft :: number
  imgRight :: number
  imgTop :: number
  imgBottom :: number

text \<open>
  The placement of the image on the canvas, from the target size, the width and height
  of the decoded image (integers that are not negative; for an image without pixels
  the quotient \<^verbatim>\<open>size / 0\<close> is \<^verbatim>\<open>Infinity\<close>) and the zoom, which is any number.
\<close>

definition image_placement :: "nat \<Rightarrow> nat \<Rightarrow> nat \<Rightarrow> number \<Rightarrow> image_bounds" where
  "image_placement size' img_width img_height zoom' =
     (let baseScale = divide_number (Finite (real size')) (Finite (real (min img_width img_height)));
          scale = times_number baseScale zoom';
          w = times_number (Finite (real img_width)) scale;
          h = times_number (Finite (real img_height)) scale;
          x = divide_number (minus_number (Finite (real size')) w) (Finite 2);
          y = divide_number (minus_number (Finite (real size')) h) (Finite 2)
      in \<lparr>imgLeft = x, imgRight = plus_number x w, imgTop = y, imgBottom = plus_number y h\<rparr>)"

text \<open>
  \<^verbatim>\<open>data[i] ?? 0\<close> on the \<^verbatim>\<open>Uint8ClampedArray\<close>: an index outside the array reads
  \<^verbatim>\<open>undefined\<close>.
\<close>

definition read_byte :: "8 word list \<Rightarrow> nat \<Rightarrow> nat" where
  "read_byte data i = (if i < length data then unat (data ! i) else 0)"

text \<open>
  \<^verbatim>\<open>data[i] = v\<close>: the array converts the number to a byte (NaN to 0, the other values
  clamped to \<open>0..255\<close> and rounded, ties to even), and a write outside the array is
  ignored.
\<close>

fun to_uint8_clamped :: "number \<Rightarrow> 8 word" where
  "to_uint8_clamped NaN = 0"
| "to_uint8_clamped (Infinity p) = (if p then 255 else 0)"
| "to_uint8_clamped (Finite v) = word_of_int (round_even (max 0 (min 255 v)))"

definition write_byte :: "8 word list \<Rightarrow> nat \<Rightarrow> number \<Rightarrow> 8 word list" where
  "write_byte data i v = (if i < length data then data[i := to_uint8_clamped v] else data)"

text \<open>
  The values computed for the pixel \<open>(px, py)\<close> in the body of the two loops:
  \<^verbatim>\<open>idx\<close>, \<^verbatim>\<open>ratio\<close>, \<^verbatim>\<open>minEdgeDist\<close> and \<^verbatim>\<open>finalAlpha\<close>.
\<close>

definition pixel_idx :: "nat \<Rightarrow> nat \<Rightarrow> nat \<Rightarrow> nat" where
  "pixel_idx size' px py = (py * size' + px) * 4"

definition pixel_ratio :: "nat \<Rightarrow> nat \<Rightarrow> nat \<Rightarrow> number" where
  "pixel_ratio size' px py =
     (let centerX = divide_number (Finite (real size')) (Finite 2);
          centerY = divide_number (Finite (real size')) (Finite 2);
          maxRadius = divide_number (Finite (real size')) (Finite 2);
          dist = Math_sqrt (plus_number (square_number (minus_number (Finite (real px)) centerX))
                              (square_number (minus_number (Finite (real py)) centerY)))
      in divide_number dist maxRadius)"

definition pixel_minEdgeDist :: "image_bounds \<Rightarrow> nat \<Rightarrow> nat \<Rightarrow> number" where
  "pixel_minEdgeDist b px py =
     (let fromLeft = minus_number (Finite (real px)) (imgLeft b);
          fromRight = minus_number (imgRight b) (Finite (real px));
          fromTop = minus_number (Finite (real py)) (imgTop b);
          fromBottom = minus_number (imgBottom b) (Finite (real py))
      in Math_min [fromLeft, fromRight, fromTop, fromBottom])"

definition featherSize_of :: "nat \<Rightarrow> number" where
  "featherSize_of size' = times_number (Finite (real size')) (to_double 0.08)"

definition finalAlpha :: "nat \<Rightarrow> image_bounds \<Rightarrow> nat \<Rightarrow> nat \<Rightarrow> number" where
  "finalAlpha size' b px py =
     times_number (circularAlpha (pixel_ratio size' px py))
       (edgeAlpha (featherSize_of size') (pixel_minEdgeDist b px py))"

text \<open>The body of the inner loop: the alpha byte of the pixel is rewritten in place.\<close>

definition fade_pixel :: "nat \<Rightarrow> image_bounds \<Rightarrow> nat \<Rightarrow> nat \<Rightarrow> 8 word list \<Rightarrow> 8 word list" where
  "fade_pixel size' b py px data =
     (let idx = pixel_idx size' px py
      in write_byte data (idx + 3)
           (Math_floor (times_number (Finite (real (read_byte data (idx + 3))))
                          (finalAlpha size' b px py))))"

text \<open>
  The part of \<^verbatim>\<open>createFadedTexture\<close> that runs once the image has loaded, on the
  pixel data \<^verbatim>\<open>getImageData\<close> returns after the image has been drawn (the drawing itself
  is the browser's): the two loops \<^verbatim>\<open>for (py ...) for (px ...)\<close>.
\<close>

definition createFadedTexture ::
    "nat \<Rightarrow> nat \<Rightarrow> nat \<Rightarrow> number \<Rightarrow> 8 word list \<Rightarrow> 8 word list" where
  "createFadedTexture size' img_width img_height zoom' data =
     (let b = image_placement size' img_width img_height zoom'
      in fold (\<lambda>py d. fold (\<lambda>px d'. fade_pixel size' b py px d') [0..<size'] d)
           [0..<size'] data)"

text \<open>
  The byte the loop body writes for the pixel \<open>(px, py)\<close> when the alpha byte it reads
  is \<open>a\<close>.
\<close>

definition faded_byte :: "nat \<Rightarrow> image_bounds \<Rightarrow> nat \<Rightarrow> nat \<Rightarrow> 8 word \<Rightarrow> 8 word" where
  "faded_byte size' b px py a =
     to_uint8_clamped
       (Math_floor (times_number (Finite (real (unat a))) (finalAlpha size' b px py)))"

text \<open>
  The loops stopped early, for the loop invariants: the inner loop of row \<open>py\<close> after
  its first \<open>m\<close> pixels, and the outer loop after its first \<open>m\<close> rows.
\<close>

definition fade_row :: "nat \<Rightarrow> image_bounds \<Rightarrow> nat \<Rightarrow> nat \<Rightarrow> 8 word list \<Rightarrow> 8 word list" where
  "fade_row size' b py m data = fold (\<lambda>px d. fade_pixel size' b py px d) [0..<m] data"

definition fade_rows :: "nat \<Rightarrow> image_bounds \<Rightarrow> nat \<Rightarrow> 8 word list \<Rightarrow> 8 word list" where
  "fade_rows size' b m data = fold (\<lambda>py d. fade_row size' b py size' d) [0..<m] data"

subsection \<open>Configuration migration (\<^verbatim>\<open>App.tsx\<close>)\<close>

text \<open>
  The persisted document is what \<^verbatim>\<open>JSON.parse\<close> returns: a JSON value. An object is the
  list of its properties (with distinct keys) in the order of enumeration.
\<close>

datatype jsvalue =
    JNull
  | JBool bool
  | JNum real
  | JStr string
  | JArr "jsvalue list"
  | JObj "(string \<times> jsvalue) list"

text \<open>The decimal name of an array index, as the property key of an element.\<close>

fun index_key :: "nat \<Rightarrow> string" where
  "index_key n =
     (if n < 10 then [char_of (48 + n)]
      else index_key (n div 10) @ [char_of (48 + n mod 10)])"

text \<open>
  The own enumerable properties of a value, which \<^verbatim>\<open>{...v}\<close> copies: the properties of
  an object, the elements of an array and the characters of a string under their
  indices, nothing for the other values.
\<close>

fun own_props :: "jsvalue \<Rightarrow> (string \<times> jsvalue) list" where
  "own_props (JObj kvs) = kvs"
| "own_props (JArr xs) = zip (map index_key [0..<length xs]) xs"
| "own_props (JStr s) = zip (map index_key [0..<length s]) (map (\<lambda>c. JStr [c]) s)"
| "own_props v = []"

text \<open>
  \<^verbatim>\<open>v.key\<close> for one of the keys this code reads (\<^verbatim>\<open>core\<close>, \<^verbatim>\<open>dreams\<close>,
  \<^verbatim>\<open>positionIndex\<close>), on a value other than \<^verbatim>\<open>null\<close>; \<open>None\<close> is \<^verbatim>\<open>undefined\<close>. Only an
  object can have such a property.
\<close>

fun get_prop :: "jsvalue \<Rightarrow> string \<Rightarrow> jsvalue option" where
  "get_prop (JObj kvs) key = map_of kvs key"
| "get_prop v key = None"

text \<open>Truthiness, and the operators \<^verbatim>\<open>||\<close>, \<^verbatim>\<open>??\<close> and \<^verbatim>\<open>?.\<close>.\<close>

fun truthy :: "jsvalue \<Rightarrow> bool" where
  "truthy JNull = False"
| "truthy (JBool b) = b"
| "truthy (JNum n) = (n \<noteq> 0)"
| "truthy (JStr s) = (s \<noteq> [])"
| "truthy (JArr xs) = True"
| "truthy (JObj kvs) = True"

definition or_else :: "jsvalue option \<Rightarrow> jsvalue \<Rightarrow> jsvalue" where
  "or_else v d = (case v of None \<Rightarrow> d | Some x \<Rightarrow> if truthy x then x else d)"

fun nullish_or :: "jsvalue option \<Rightarrow> jsvalue \<Rightarrow> jsvalue" where
  "nullish_or None d = d"
| "nullish_or (Some JNull) d = d"
| "nullish_or (Some v) d = v"

definition optional_prop :: "jsvalue \<Rightarrow> string \<Rightarrow> jsvalue option" where
  "optional_prop v key = (if v = JNull then None else get_prop v key)"

text \<open>The names of the fields of \<^verbatim>\<open>SlotConfig\<close>, and \<^verbatim>\<open>DEFAULT_SLOT_CONFIG\<close> as an object.\<close>

definition slot_fields :: "string list" where
  "slot_fields =
     [''image'', ''size'', ''zoom'', ''opacity'', ''blur'', ''glowIntensity'', ''offsetX'',
      ''offsetY'', ''rotation'', ''saturation'', ''brightness'', ''contrast'',
      ''positionIndex'']"

text \<open>A \<^verbatim>\<open>SlotConfig\<close> as the object \<^verbatim>\<open>JSON.stringify\<close> and \<^verbatim>\<open>JSON.parse\<close> make of it.\<close>

definition slot_object :: "SlotConfig \<Rightarrow> (string \<times> jsvalue) list" where
  "slot_object c =
     [(''image'', case image_field c of None \<Rightarrow> JNull | Some s \<Rightarrow> JStr s),
      (''size'', JNum (size_field c)),
      (''zoom'', JNum (zoom c)),
      (''opacity'', JNum (opacity c)),
      (''blur'', JNum (blur c)),
      (''glowIntensity'', JNum (glowIntensity c)),
      (''offsetX'', JNum (offsetX c)),
      (''offsetY'', JNum (offsetY c)),
      (''rotation'', JNum (rotation c)),
      (''saturation'', JNum (saturation c)),
      (''brightness'', JNum (brightness c)),
      (''contrast'', JNum (contrast c)),
      (''positionIndex'', JNum (of_int (positionIndex c)))]"

definition config_document :: "Config \<Rightarrow> jsvalue" where
  "config_document c =
     JObj [(''core'', JObj (slot_object (core c))),
           (''dreams'', JArr (map (\<lambda>d. JObj (slot_object d)) (dreams c)))]"

text \<open>
  A migrated slot is an object again; it is read through its properties, so it is kept
  as the map from keys to values. \<^verbatim>\<open>{...DEFAULT_SLOT_CONFIG, ...slot, positionIndex: v}\<close>:
  later properties replace earlier ones.
\<close>

type_synonym slot_map = "string \<rightharpoonup> jsvalue"

definition migrateSlot :: "jsvalue \<Rightarrow> jsvalue \<Rightarrow> slot_map" where
  "migrateSlot slot defaultPosition =
     (map_of (slot_object DEFAULT_SLOT_CONFIG) ++ map_of (own_props slot))
       (''positionIndex'' \<mapsto> nullish_or (get_prop slot ''positionIndex'') defaultPosition)"

record migrated_config =
  migrated_core :: slot_map
  migrated_dreams :: "slot_map list"

datatype type_error = TypeError

text \<open>
  \<^verbatim>\<open>migrateConfigWithDefaults(data)\<close>. Reading a property of \<^verbatim>\<open>null\<close> and calling
  \<^verbatim>\<open>.map\<close> on a value that is not an array throw a \<^verbatim>\<open>TypeError\<close>.
\<close>

definition migrateConfigWithDefaults :: "jsvalue \<Rightarrow> type_error + migrated_config" where
  "migrateConfigWithDefaults data =
     (if data = JNull then Inl TypeError
      else
        (let core' = migrateSlot (or_else (get_prop data ''core'') (JObj [])) (JNum (- 1))
         in case or_else (get_prop data ''dreams'') (JArr []) of
              JArr ds \<Rightarrow>
                Inr \<lparr>migrated_core = core',
                     migrated_dreams =
                       map (\<lambda>(d, i). migrateSlot (or_else (Some d) (JObj []))
                                        (nullish_or (optional_prop d ''positionIndex'')
                                           (JNum (real i))))
                         (zip ds [0..<length ds])\<rparr>
            | _ \<Rightarrow> Inl TypeError))"

text \<open>
  Documents for the closed examples: one whose second dream slot has no
  \<^verbatim>\<open>positionIndex\<close>, and a complete configuration.
\<close>

definition example_document :: jsvalue where
  "example_document =
     JObj [(''core'', JObj [(''image'', JStr ''imgA''), (''size'', JNum 1.2)]),
           (''dreams'', JArr [JObj [(''positionIndex'', JNum 1), (''zoom'', JNum 2)],
                              JObj [(''image'', JStr ''imgB'')]])]"

definition example_config :: Config where
  "example_config =
     \<lparr>core = DEFAULT_SLOT_CONFIG\<lparr>image_field := Some ''imgA'', size_field := 1.2\<rparr>,
      dreams = [DEFAULT_SLOT_CONFIG\<lparr>image_field := Some ''imgB'', zoom := 2, positionIndex := 3\<rparr>,
                DEFAULT_SLOT_CONFIG\<lparr>positionIndex := 7\<rparr>]\<rparr>"

section \<open>Properties\<close>

subsection \<open>Hiding and restoring the selection rings\<close>

lemma node_simps:
  "is_hud (p, z, v) = (z \<ge> 1000)"
  "shown (p, z, v) = v"
  "hud_hidden (p, z, v) = (p, z, v \<and> \<not> z \<ge> 1000)"
  "is_hud (below i n) = is_hud n"
  "shown (below i n) = shown n"
  "hud_hidden (below i n) = below i (hud_hidden n)"
  "fst (below i n) = i # fst n"
  by (auto simp: is_hud_def shown_def hud_hidden_def below_def split: prod.splits)

lemma below_hud_hidden:
  "map (below i) (map hud_hidden xs) = map hud_hidden (map (below i) xs)"
  by (induction xs) (simp_all add: node_simps)

lemma below_filter:
  "map fst (filter (\<lambda>n. is_hud n \<and> shown n) (map (below i) xs))
     = map ((#) i) (map fst (filter (\<lambda>n. is_hud n \<and> shown n) xs))"
  by (induction xs) (simp_all add: node_simps)

text \<open>
  The walk hides the visible nodes with \<open>zIndex \<ge> 1000\<close>, returns their references in
  the order of the walk and leaves every other flag as it was.
\<close>

lemma hide_nodes:
  "snd (hide_child i c) = map fst (filter (\<lambda>n. is_hud n \<and> shown n) (nodes_of i c))
    \<and> nodes_of i (fst (hide_child i c)) = map hud_hidden (nodes_of i c)"
  "snd (hide_children i cs) = map fst (filter (\<lambda>n. is_hud n \<and> shown n) (nodes_list i cs))
    \<and> nodes_list i (fst (hide_children i cs)) = map hud_hidden (nodes_list i cs)"
proof (induction i c and i cs rule: hide_child_hide_children.induct)
  case (1 i z v cs)
  show ?case
  proof (cases "cs = []")
    case True
    then show ?thesis by (auto simp add: node_simps Let_def)
  next
    case False
    with 1 show ?thesis
      by (auto simp add: node_simps below_hud_hidden below_filter Let_def split: prod.splits)
  qed
next
  case (2 i)
  then show ?case by simp
next
  case (3 i child rest)
  from 3(1) 3(2)[OF refl prod.collapse] show ?case
    by (auto split: prod.splits)
qed

lemma show_element_below:
  "i < length cs \<Longrightarrow>
     fold show_element (map ((#) i) ps) (Container z v cs)
       = Container z v (cs[i := fold show_element ps (cs ! i)])"
  by (induction ps arbitrary: cs) simp_all

text \<open>Showing the returned nodes again undoes the walk.\<close>

lemma hide_restore:
  "\<exists>ps. snd (hide_child i c) = map ((#) i) ps
        \<and> fold show_element ps (fst (hide_child i c)) = c"
  "length (fst (hide_children i cs)) = length cs \<and>
   (\<forall>z v pre. length pre = i \<longrightarrow>
      fold show_element (snd (hide_children i cs))
          (Container z v (pre @ fst (hide_children i cs)))
        = Container z v (pre @ cs))"
proof (induction i c and i cs rule: hide_child_hide_children.induct)
  case (1 i z v cs)
  show ?case
  proof (cases "cs = []")
    case True
    then show ?thesis
      by (cases "z \<ge> 1000 \<and> v") (auto simp: Let_def intro: exI[of _ "[[]]"])
  next
    case False
    with 1 have ih:
      "fold show_element (snd (hide_children 0 cs)) (Container z' v' (fst (hide_children 0 cs)))
         = Container z' v' cs" for z' v'
      by (metis append_Nil list.size(3))
    show ?thesis
    proof (cases "z \<ge> 1000 \<and> v")
      case True
      with False ih show ?thesis
        by (intro exI[of _ "[] # snd (hide_children 0 cs)"])
           (auto simp: Let_def split: prod.splits)
    next
      case False
      with \<open>cs \<noteq> []\<close> ih show ?thesis
        by (intro exI[of _ "snd (hide_children 0 cs)"])
           (auto simp: Let_def split: prod.splits)
    qed
  qed
next
  case (2 i)
  then show ?case by simp
next
  case (3 i child rest)
  obtain ps where ps: "snd (hide_child i child) = map ((#) i) ps"
     "fold show_element ps (fst (hide_child i child)) = child"
    using 3(1) by blast
  have len: "length (fst (hide_children (Suc i) rest)) = length rest"
    using 3(2)[OF refl prod.collapse] by simp
  have rest: "length pre = Suc i \<Longrightarrow>
      fold show_element (snd (hide_children (Suc i) rest))
        (Container z v (pre @ fst (hide_children (Suc i) rest))) = Container z v (pre @ rest)"
    for z v pre
    using 3(2)[OF refl prod.collapse] by simp
  show ?case
  proof (intro conjI allI impI)
    show "length (fst (hide_children i (child # rest))) = length (child # rest)"
      using len by (auto split: prod.splits)
  next
    fix z v and pre :: "container list"
    assume l: "length pre = i"
    have "fold show_element (snd (hide_children i (child # rest)))
            (Container z v (pre @ fst (hide_children i (child # rest))))
        = fold show_element (snd (hide_children (Suc i) rest))
            (fold show_element (map ((#) i) ps)
              (Container z v (pre @ fst (hide_child i child) # fst (hide_children (Suc i) rest))))"
      using ps(1) by (auto split: prod.splits)
    also have "\<dots> = fold show_element (snd (hide_children (Suc i) rest))
              (Container z v ((pre @ [child]) @ fst (hide_children (Suc i) rest)))"
      using ps(2) unfolding l[symmetric] by (simp add: show_element_below nth_append)
    also have "\<dots> = Container z v ((pre @ [child]) @ rest)"
      using l by (intro rest) simp
    finally show "fold show_element (snd (hide_children i (child # rest)))
            (Container z v (pre @ fst (hide_children i (child # rest))))
          = Container z v (pre @ child # rest)"
      by simp
  qed
qed

lemma hideHudElements_nodes:
  "snd (hideHudElements c) = map fst (filter (\<lambda>n. is_hud n \<and> shown n) (nodes_below c))"
  "nodes_below (fst (hideHudElements c)) = map hud_hidden (nodes_below c)"
  "zIndex (fst (hideHudElements c)) = zIndex c"
  "visible (fst (hideHudElements c)) = visible c"
  using hide_nodes(2)[of 0 "children c"]
  by (auto simp add: hideHudElements_def nodes_below_def split: prod.splits)

lemma restore_hide:
  "restoreHudElements (snd (hideHudElements c)) (fst (hideHudElements c)) = c"
proof -
  have "fold show_element (snd (hide_children 0 (children c)))
          (Container (zIndex c) (visible c) ([] @ fst (hide_children 0 (children c))))
        = Container (zIndex c) (visible c) ([] @ children c)"
    using hide_restore(2)[of 0 "children c"] by blast
  then show ?thesis
    by (auto simp add: restoreHudElements_def hideHudElements_def split: prod.splits)
qed

lemma hud_hidden_not_shown: "is_hud (hud_hidden n) \<Longrightarrow> \<not> shown (hud_hidden n)"
  by (cases n) (simp add: node_simps)

text \<open>
  Claim C3. \<^verbatim>\<open>hideHudElements\<close> walks the nodes below the container it is given (the
  container itself, the stage, is the root that is rendered; it is not examined and
  stays as it is). It hides exactly the
  nodes that are visible and have \<open>zIndex \<ge> 1000\<close> and returns exactly these nodes, in
  the order of the walk; the other flags and every \<open>zIndex\<close> stay as they are, so
  afterwards, when the offscreen render takes place, every node with \<open>zIndex \<ge> 1000\<close>
  is invisible. Applying \<^verbatim>\<open>restoreHudElements\<close> to the returned list gives back the scene
  as it was: hiding and then restoring is the identity on the visibility of the scene.
\<close>

theorem hideHudElements_restoreHudElements:
  "hideHudElements scene = (scene', hidden) \<Longrightarrow>
     hidden = map fst (filter (\<lambda>n. is_hud n \<and> shown n) (nodes_below scene))
     \<and> nodes_below scene' = map hud_hidden (nodes_below scene)
     \<and> (\<forall>n \<in> set (nodes_below scene'). is_hud n \<longrightarrow> \<not> shown n)
     \<and> zIndex scene' = zIndex scene \<and> visible scene' = visible scene
     \<and> (\<forall>pf a filename r. stage a = scene
            \<and> Rendered r \<in> set (events (exportCanvasAsImage pf (Some a) filename))
          \<longrightarrow> stage r = scene')
     \<and> restoreHudElements hidden scene' = scene"
proof -
  assume h: "hideHudElements scene = (scene', hidden)"
  then have fs: "fst (hideHudElements scene) = scene'" "snd (hideHudElements scene) = hidden"
    by simp_all
  have 1: "hidden = map fst (filter (\<lambda>n. is_hud n \<and> shown n) (nodes_below scene))"
    using hideHudElements_nodes(1)[of scene] fs by simp
  have 2: "nodes_below scene' = map hud_hidden (nodes_below scene)"
    using hideHudElements_nodes(2)[of scene] fs by simp
  have 3: "\<forall>n \<in> set (nodes_below scene'). is_hud n \<longrightarrow> \<not> shown n"
    unfolding 2 using hud_hidden_not_shown by auto
  have 4: "\<forall>pf a filename r. stage a = scene
            \<and> Rendered r \<in> set (events (exportCanvasAsImage pf (Some a) filename))
          \<longrightarrow> stage r = scene'"
    using h
    by (auto simp: exportCanvasAsImage_def export_failed_def blob_callback_def Let_def
             split: option.splits sum.splits prod.splits)
  have 5: "restoreHudElements hidden scene' = scene"
    using restore_hide[of scene] fs by simp
  have 6: "zIndex scene' = zIndex scene \<and> visible scene' = visible scene"
    using hideHudElements_nodes(3,4)[of scene] fs by simp
  from 1 2 3 4 5 6 show ?thesis by blast
qed

theorem hideHudElements_restoreHudElements_witness:
  "hideHudElements example_stage =
     (Container 0 True
       [Container 0 True [],
        Container 0 True
          [Container 500 True [Container 1 True [], Container 1000 False []],
           Container 50 True [Container 1 True [], Container 1000 False []]]],
      [[1, 0, 1]])
   \<and> [[1, 0, 1]] = map fst (filter (\<lambda>n. is_hud n \<and> shown n) (nodes_below example_stage))
   \<and> restoreHudElements [[1, 0, 1]]
       (Container 0 True
         [Container 0 True [],
          Container 0 True
            [Container 500 True [Container 1 True [], Container 1000 False []],
             Container 50 True [Container 1 True [], Container 1000 False []]]])
       = example_stage"
proof -
  have h: "hideHudElements example_stage =
     (Container 0 True
       [Container 0 True [],
        Container 0 True
          [Container 500 True [Container 1 True [], Container 1000 False []],
           Container 50 True [Container 1 True [], Container 1000 False []]]],
      [[1, 0, 1]])"
    by (simp add: hideHudElements_def example_stage_def)
  from hideHudElements_restoreHudElements[OF h] h show ?thesis by blast
qed

subsection \<open>The export\<close>

lemma export_null:
  "exportCanvasAsImage pf None filename =
     \<lparr>promise = Resolved, app_after = None,
      events = [ConsoleError ''Application instance is null'', Settled Resolved]\<rparr>"
  by (simp add: exportCanvasAsImage_def)

lemma export_promise:
  "promise (exportCanvasAsImage pf (Some a) filename) =
     (case thrown pf of Some e \<Rightarrow> Rejected e | None \<Rightarrow> Resolved)"
  by (simp add: exportCanvasAsImage_def export_failed_def thrown_def Let_def
           split: option.splits sum.splits prod.splits)

lemma export_download:
  "download_initiated (exportCanvasAsImage pf (Some a) filename)
     \<longleftrightarrow> (\<exists>b. thrown pf = None \<and> canvas_toBlob pf = Inr (Some b))"
  by (auto simp add: exportCanvasAsImage_def export_failed_def thrown_def Let_def
           download_initiated_def blob_callback_def
           split: option.splits sum.splits prod.splits)

lemma export_events_resolved:
  "thrown pf = None \<Longrightarrow> canvas_toBlob pf = Inr b \<Longrightarrow>
     \<exists>r. events (exportCanvasAsImage pf (Some a) filename)
          = [Rendered r, Settled Resolved] @ blob_callback filename b"
  by (auto simp add: exportCanvasAsImage_def export_failed_def thrown_def Let_def
           split: option.splits sum.splits prod.splits)

text \<open>When the offscreen render does not throw, the application is as it was before.\<close>

lemma export_restores_after_render:
  "renderer_render pf = None \<Longrightarrow>
     app_after (exportCanvasAsImage pf (Some a) filename) = Some a"
proof -
  assume r: "renderer_render pf = None"
  have "restoreHudElements (snd (hideHudElements (stage a))) (fst (hideHudElements (stage a)))
          = stage a"
    by (rule restore_hide)
  with r show ?thesis
    by (auto simp add: exportCanvasAsImage_def export_failed_def Let_def
             split: option.splits sum.splits prod.splits)
qed

text \<open>
  Claim C1, as stated, at a null application and at a null blob: the promise is
  resolved, not rejected.
\<close>

theorem export_null_resolves_counterexample:
  "promise (exportCanvasAsImage working_platform None ''vision-board.png'') = Resolved
   \<and> promise (exportCanvasAsImage (working_platform\<lparr>canvas_toBlob := Inr None\<rparr>)
               (Some example_app) ''vision-board.png'') = Resolved"
  by (simp add: export_null export_promise thrown_def working_platform_def)

text \<open>
  Claim C1, amended. With a null application the error is only logged: the promise
  resolves and no download is initiated. With an application, the promise rejects
  exactly when one of \<^verbatim>\<open>RenderTexture.create\<close>, \<^verbatim>\<open>renderer.render\<close>,
  \<^verbatim>\<open>renderer.extract.canvas\<close> and \<^verbatim>\<open>canvas.toBlob\<close> throws, with the error thrown, and
  then no download is initiated. When nothing throws the promise resolves once
  \<^verbatim>\<open>toBlob\<close> has returned, before the blob callback runs; the callback initiates the
  download if it is given a blob, and only logs an error if the blob is null (the
  promise is then resolved and no download is initiated).
\<close>

theorem export_promise_and_download:
  "(app = None \<longrightarrow>
      promise (exportCanvasAsImage pf app filename) = Resolved
      \<and> \<not> download_initiated (exportCanvasAsImage pf app filename))
   \<and> (\<forall>e. app \<noteq> None \<and> thrown pf = Some e \<longrightarrow>
        promise (exportCanvasAsImage pf app filename) = Rejected e
        \<and> \<not> download_initiated (exportCanvasAsImage pf app filename))
   \<and> (app \<noteq> None \<and> thrown pf = None \<longrightarrow>
        promise (exportCanvasAsImage pf app filename) = Resolved)
   \<and> (app \<noteq> None \<and> thrown pf = None \<and> canvas_toBlob pf = Inr None \<longrightarrow>
        \<not> download_initiated (exportCanvasAsImage pf app filename)
        \<and> (\<exists>r. events (exportCanvasAsImage pf app filename)
               = [Rendered r, Settled Resolved, ConsoleError ''Failed to create blob'']))
   \<and> (\<forall>b. app \<noteq> None \<and> thrown pf = None \<and> canvas_toBlob pf = Inr (Some b) \<longrightarrow>
        download_initiated (exportCanvasAsImage pf app filename)
        \<and> (\<exists>r. events (exportCanvasAsImage pf app filename)
               = [Rendered r, Settled Resolved, Download filename b]))"
proof (cases app)
  case None
  then show ?thesis
    by (simp add: export_null download_initiated_def)
next
  case (Some a)
  have "\<exists>r. events (exportCanvasAsImage pf (Some a) filename)
               = [Rendered r, Settled Resolved, ConsoleError ''Failed to create blob'']"
    if "thrown pf = None" "canvas_toBlob pf = Inr None"
    using export_events_resolved[OF that, of a filename] by (simp add: blob_callback_def)
  moreover have "\<exists>r. events (exportCanvasAsImage pf (Some a) filename)
               = [Rendered r, Settled Resolved, Download filename b]"
    if "thrown pf = None" "canvas_toBlob pf = Inr (Some b)" for b
    using export_events_resolved[OF that, of a filename] by (simp add: blob_callback_def)
  ultimately show ?thesis
    using Some by (simp add: export_promise export_download)
qed

theorem export_promise_and_download_witness:
  "promise (exportCanvasAsImage working_platform None ''vision-board.png'') = Resolved
   \<and> \<not> download_initiated (exportCanvasAsImage working_platform None ''vision-board.png'')
   \<and> thrown (working_platform\<lparr>extract_canvas := Some (Error ''context lost'')\<rparr>)
       = Some (Error ''context lost'')
   \<and> promise (exportCanvasAsImage
                (working_platform\<lparr>extract_canvas := Some (Error ''context lost'')\<rparr>)
                (Some example_app) ''vision-board.png'') = Rejected (Error ''context lost'')
   \<and> thrown (working_platform\<lparr>canvas_toBlob := Inr None\<rparr>) = None
   \<and> \<not> download_initiated (exportCanvasAsImage (working_platform\<lparr>canvas_toBlob := Inr None\<rparr>)
                (Some example_app) ''vision-board.png'')
   \<and> thrown working_platform = None
   \<and> download_initiated (exportCanvasAsImage working_platform
                (Some example_app) ''vision-board.png'')"
proof -
  have t1: "thrown (working_platform\<lparr>extract_canvas := Some (Error ''context lost'')\<rparr>)
       = Some (Error ''context lost'')"
    and t2: "thrown (working_platform\<lparr>canvas_toBlob := Inr None\<rparr>) = None"
    and t3: "thrown working_platform = None"
    and b2: "canvas_toBlob (working_platform\<lparr>canvas_toBlob := Inr None\<rparr>) = Inr None"
    and b3: "canvas_toBlob working_platform = Inr (Some (Blob [0x89, 0x50, 0x4E, 0x47]))"
    by (simp_all add: thrown_def working_platform_def)
  show ?thesis
    using export_promise_and_download[of None working_platform "''vision-board.png''"]
      export_promise_and_download[of "Some example_app"
        "working_platform\<lparr>extract_canvas := Some (Error ''context lost'')\<rparr>"
        "''vision-board.png''"]
      export_promise_and_download[of "Some example_app"
        "working_platform\<lparr>canvas_toBlob := Inr None\<rparr>" "''vision-board.png''"]
      export_promise_and_download[of "Some example_app" working_platform "''vision-board.png''"]
      t1 t2 t3 b2 b3
    by simp
qed

text \<open>
  Claim C2 at an export whose offscreen render throws: the \<^verbatim>\<open>catch\<close> block logs and
  rethrows, the statements that restore the stage are skipped. The promise is rejected,
  the stage keeps the export scale \<open>(3, 3)\<close> instead of \<open>(1, 1)\<close>, and the selection ring
  at \<open>[1, 0, 1]\<close> stays hidden.
\<close>

theorem export_render_throws_not_restored:
  "exportCanvasAsImage (working_platform\<lparr>renderer_render := Some (Error ''context lost'')\<rparr>)
      (Some example_app) ''vision-board.png''
   = \<lparr>promise = Rejected (Error ''context lost''),
      app_after = Some
        \<lparr>stage = Container 0 True
           [Container 0 True [],
            Container 0 True
              [Container 500 True [Container 1 True [], Container 1000 False []],
               Container 50 True [Container 1 True [], Container 1000 False []]]],
         stage_scale = (3, 3), stage_position = (0, 0)\<rparr>,
      events = [ConsoleError ''Failed to export canvas:'',
                Settled (Rejected (Error ''context lost''))]\<rparr>"
  by (simp add: exportCanvasAsImage_def export_failed_def working_platform_def
        example_app_def example_stage_def hideHudElements_def
        EXPORT_WIDTH_def EXPORT_HEIGHT_def POSTER_WIDTH_def POSTER_HEIGHT_def)

subsection \<open>Rounding to binary64\<close>

lemma round_even_of_int: "round_even (of_int n) = n"
  by (simp add: round_even_def)

lemma round_even_le: "y \<le> of_int N \<Longrightarrow> round_even y \<le> N"
  unfolding round_even_def Let_def
  by (auto simp add: floor_le_iff le_floor_iff)

lemma round_even_ge: "of_int N \<le> y \<Longrightarrow> N \<le> round_even y"
  unfolding round_even_def Let_def
  by (auto simp add: le_floor_iff) linarith+

lemma round_even_err: "\<bar>of_int (round_even y) - y\<bar> \<le> 1/2"
  unfolding round_even_def Let_def
  by (auto)

lemma round_even_minus: "round_even (- y) = - round_even y"
proof (cases "y \<in> \<int>")
  case True
  then obtain n where "y = of_int n" by (auto elim: Ints_cases)
  then show ?thesis using round_even_of_int[of n] round_even_of_int[of "- n"] by simp
next
  case False
  then have f: "\<lfloor>- y\<rfloor> = - \<lfloor>y\<rfloor> - 1"
    by (auto simp add: floor_minus ceiling_altdef) (metis Ints_of_int)
  show ?thesis
    unfolding round_even_def Let_def f
    by (auto simp add: algebra_simps)
qed

lemma ulp_pos: "0 < (2::real) powi k" by simp

lemma floor_log2_eq:
  assumes "(2::real) powi k \<le> x" "x < 2 powi (k + 1)"
  shows "\<lfloor>log 2 x\<rfloor> = k"
proof -
  have x: "0 < x" using assms(1) ulp_pos[of k] by linarith
  have "2 powr (real_of_int k) \<le> x \<and> x < 2 powr (real_of_int k + 1)"
    using assms powr_real_of_int'[of 2 k] powr_real_of_int'[of 2 "k + 1"] by (simp add: add.commute)
  then show ?thesis using floor_log_eq_powr_iff[of x 2 k] x by simp
qed

lemma floor_log2_bounds:
  assumes "0 < x"
  shows "(2::real) powi \<lfloor>log 2 x\<rfloor> \<le> x \<and> x < 2 powi (\<lfloor>log 2 x\<rfloor> + 1)"
proof -
  have "2 powr (real_of_int \<lfloor>log 2 x\<rfloor>) \<le> x \<and> x < 2 powr (real_of_int \<lfloor>log 2 x\<rfloor> + 1)"
    using floor_log_eq_powr_iff[of x 2 "\<lfloor>log 2 x\<rfloor>"] assms by simp
  then show ?thesis
    using powr_real_of_int'[of 2 "\<lfloor>log 2 x\<rfloor>"] powr_real_of_int'[of 2 "\<lfloor>log 2 x\<rfloor> + 1"]
    by (simp add: add.commute)
qed

lemma pow2_int: "0 \<le> k \<Longrightarrow> (2::real) powi k = of_int (2 ^ nat k)"
  by (simp add: power_int_def)

lemma pow2_add: "(2::real) powi (a + b) = 2 powi a * 2 powi b"
  by (simp add: power_int_add)

lemma pow2_split: "k \<le> e \<Longrightarrow> (2::real) powi e = of_int (2 ^ nat (e - k)) * 2 powi k"
  using pow2_add[of "e - k" k] pow2_int[of "e - k"] by simp

lemma ulp_exponent_mono:
  assumes "x \<noteq> 0" "\<bar>x\<bar> \<le> \<bar>y\<bar>"
  shows "ulp_exponent x \<le> ulp_exponent y"
proof -
  have "log 2 \<bar>x\<bar> \<le> log 2 \<bar>y\<bar>" using assms by simp
  then have "\<lfloor>log 2 \<bar>x\<bar>\<rfloor> \<le> \<lfloor>log 2 \<bar>y\<bar>\<rfloor>" by (rule floor_mono)
  then show ?thesis by (simp add: ulp_exponent_def)
qed

lemma is_double_multiple:
  assumes "is_double d" "k \<le> ulp_exponent d"
  shows "\<exists>N :: int. d = of_int N * 2 powi k"
proof (cases "d = 0")
  case True
  then show ?thesis by (intro exI[of _ 0]) simp
next
  case False
  with assms(1) obtain n :: int where n: "d = of_int n * 2 powi ulp_exponent d"
    by (auto simp add: is_double_def)
  have "d = of_int (n * 2 ^ nat (ulp_exponent d - k)) * 2 powi k"
    using n pow2_split[OF assms(2)] by simp
  then show ?thesis by blast
qed

lemma to_double_nonzero:
  "x \<noteq> 0 \<Longrightarrow> to_double x =
     (if overflow_threshold \<le> \<bar>round_to_multiple (ulp_exponent x) x\<bar>
      then Infinity (0 < round_to_multiple (ulp_exponent x) x)
      else Finite (round_to_multiple (ulp_exponent x) x))"
  by (simp add: to_double_def Let_def)

lemma to_double_le:
  assumes "0 \<le> x" "x \<le> d" "is_double d" "d < overflow_threshold"
  shows "\<exists>r. to_double x = Finite r \<and> 0 \<le> r \<and> r \<le> d"
proof (cases "x = 0")
  case True
  with assms show ?thesis by (simp add: to_double_def)
next
  case False
  define u :: real where "u = 2 powi ulp_exponent x"
  have u: "0 < u" by (simp add: u_def)
  have "ulp_exponent x \<le> ulp_exponent d"
    using False assms by (intro ulp_exponent_mono) simp_all
  from is_double_multiple[OF assms(3) this] obtain N :: int where N: "d = of_int N * u"
    by (auto simp add: u_def)
  have "x / u \<le> of_int N" using N assms(2) u by (simp add: field_simps)
  then have le: "round_even (x / u) \<le> N" by (rule round_even_le)
  have "of_int 0 \<le> x / u" using assms(1) u by simp
  then have ge: "0 \<le> round_even (x / u)" by (rule round_even_ge)
  define r where "r = round_to_multiple (ulp_exponent x) x"
  have r: "r = of_int (round_even (x / u)) * u" by (simp add: r_def round_to_multiple_def u_def)
  have r0: "0 \<le> r" using ge u by (simp add: r)
  have "of_int (round_even (x / u)) \<le> (of_int N :: real)" using le by simp
  then have rd: "r \<le> d" unfolding r N using u by (simp add: mult_right_mono)
  have "to_double x = Finite r"
    using r0 rd assms(4) unfolding to_double_nonzero[OF False] r_def[symmetric] by simp
  with r0 rd show ?thesis by blast
qed

lemma to_double_exact:
  assumes "is_double d" "\<bar>d\<bar> < overflow_threshold"
  shows "to_double d = Finite d"
proof (cases "d = 0")
  case True
  then show ?thesis by (simp add: to_double_def)
next
  case False
  with assms(1) obtain n :: int where n: "d = of_int n * 2 powi ulp_exponent d"
    by (auto simp add: is_double_def)
  have "d / 2 powi ulp_exponent d = of_int n"
    by (subst n) simp
  then have "round_to_multiple (ulp_exponent d) d = d"
    using n by (simp add: round_even_of_int round_to_multiple_def)
  then show ?thesis using assms(2) unfolding to_double_nonzero[OF False] by simp
qed


lemma pow2_less_imp: "(2::real) powi a < 2 powi b \<Longrightarrow> a < b"
  using power_int_increasing[of b a "2::real"] by (cases "a < b") auto

lemma pow2_mono: "a \<le> b \<Longrightarrow> (2::real) powi a \<le> 2 powi b"
  by (rule power_int_increasing) simp_all

lemma ulp_exponent_eq:
  assumes "(2::real) powi e \<le> \<bar>x\<bar>" "\<bar>x\<bar> < 2 powi (e + 1)"
  shows "ulp_exponent x = max e (- 1022) - 52"
  using floor_log2_eq[OF assms] by (simp add: ulp_exponent_def)

lemma ulp_exponent_le:
  assumes "x \<noteq> 0" "\<bar>x\<bar> < 2 powi k" "- 1021 \<le> k"
  shows "ulp_exponent x \<le> k - 53"
proof -
  have "2 powi \<lfloor>log 2 \<bar>x\<bar>\<rfloor> \<le> \<bar>x\<bar>" using floor_log2_bounds[of "\<bar>x\<bar>"] assms(1) by simp
  with assms(2) have "(2::real) powi \<lfloor>log 2 \<bar>x\<bar>\<rfloor> < 2 powi k" by linarith
  then have "\<lfloor>log 2 \<bar>x\<bar>\<rfloor> < k" by (rule pow2_less_imp)
  then show ?thesis using assms(3) by (simp add: ulp_exponent_def)
qed

lemma ulp_exponent_ge: "- 1074 \<le> ulp_exponent x"
  by (simp add: ulp_exponent_def)

lemma is_doubleI:
  assumes x: "x = of_int n * 2 powi k" and n: "\<bar>n\<bar> \<le> 2 ^ 53" and k: "- 1074 \<le> k"
  shows "is_double x"
proof (cases "x = 0")
  case True
  then show ?thesis by (simp add: is_double_def)
next
  case False
  have ax: "\<bar>x\<bar> = of_int \<bar>n\<bar> * 2 powi k" by (simp add: x abs_mult)
  show ?thesis
  proof (cases "\<bar>n\<bar> = 2 ^ 53")
    case True
    then have "\<bar>x\<bar> = 2 powi (k + 53)" unfolding ax by (simp add: pow2_add)
    then have "(2::real) powi (k + 53) \<le> \<bar>x\<bar>" "\<bar>x\<bar> < 2 powi (k + 53 + 1)"
      by (simp_all add: power_int_strict_increasing)
    from ulp_exponent_eq[OF this] k have E: "ulp_exponent x = k + 1" by simp
    have "x = of_int (n div 2) * 2 powi (k + 1)"
    proof -
      have "n = 2 ^ 53 \<or> n = - (2 ^ 53)" using True by linarith
      then have "even n" by auto
      then have "(of_int (n div 2) :: real) = of_int n / 2" by (simp add: real_of_int_div)
      then show ?thesis by (simp add: x pow2_add)
    qed
    then show ?thesis unfolding is_double_def E by blast
  next
    case False
    with n have "\<bar>n\<bar> < 2 ^ 53" by simp
    then have "(of_int \<bar>n\<bar> :: real) < 2 ^ 53" by (metis of_int_less_numeral_power_cancel_iff)
    then have "\<bar>x\<bar> < 2 powi (k + 53)" unfolding ax by (simp add: pow2_add)
    then have "ulp_exponent x \<le> k + 53 - 53"
      using \<open>x \<noteq> 0\<close> k by (intro ulp_exponent_le) simp_all
    then have "ulp_exponent x \<le> k" by simp
    from pow2_split[OF this]
    have "x = of_int (n * 2 ^ nat (k - ulp_exponent x)) * 2 powi ulp_exponent x"
      by (simp add: x)
    then show ?thesis unfolding is_double_def by blast
  qed
qed

lemma round_to_multiple_abs_le:
  assumes "x \<noteq> 0"
  shows "\<bar>round_even (x / 2 powi ulp_exponent x)\<bar> \<le> 2 ^ 53"
proof -
  define e where "e = \<lfloor>log 2 \<bar>x\<bar>\<rfloor>"
  have b: "\<bar>x\<bar> < 2 powi (e + 1)" using floor_log2_bounds[of "\<bar>x\<bar>"] assms by (simp add: e_def)
  have "e + 1 \<le> ulp_exponent x + 53" by (simp add: ulp_exponent_def e_def)
  then have "(2::real) powi (e + 1) \<le> 2 powi (ulp_exponent x + 53)" by (rule pow2_mono)
  with b have "\<bar>x\<bar> < 2 powi (ulp_exponent x) * 2 ^ 53" by (simp add: pow2_add)
  then have "\<bar>x\<bar> / 2 powi ulp_exponent x < 2 ^ 53"
    by (simp add: field_simps)
  moreover have "x / 2 powi ulp_exponent x \<le> \<bar>x\<bar> / 2 powi ulp_exponent x"
    "- (\<bar>x\<bar> / 2 powi ulp_exponent x) \<le> x / 2 powi ulp_exponent x"
    using divide_right_mono[of x "\<bar>x\<bar>" "2 powi ulp_exponent x"]
      divide_right_mono[of "- \<bar>x\<bar>" x "2 powi ulp_exponent x"]
    by simp_all
  ultimately have "x / 2 powi ulp_exponent x \<le> of_int (2 ^ 53)"
    "of_int (- (2 ^ 53)) \<le> x / 2 powi ulp_exponent x"
    by simp_all
  from round_even_le[OF this(1)] round_even_ge[OF this(2)] show ?thesis by simp
qed

lemma round_to_multiple_is_double:
  "is_double (round_to_multiple (ulp_exponent x) x)"
proof (cases "x = 0")
  case True
  then show ?thesis by (simp add: round_to_multiple_def round_even_def is_double_def)
next
  case False
  show ?thesis
    by (rule is_doubleI[OF _ round_to_multiple_abs_le[OF False] ulp_exponent_ge[of x]])
       (simp add: round_to_multiple_def)
qed

lemma to_double_is_double: "to_double x = Finite r \<Longrightarrow> is_double r"
  using round_to_multiple_is_double[of x]
  by (cases "x = 0") (auto simp add: to_double_def Let_def is_double_def split: if_splits)

lemma overflow_threshold_pos: "0 < overflow_threshold"
  by (simp add: overflow_threshold_def)

lemma ulp_exponent_minus: "ulp_exponent (- x) = ulp_exponent x"
  by (simp add: ulp_exponent_def)

lemma round_to_multiple_minus: "round_to_multiple e (- x) = - round_to_multiple e x"
  by (simp add: round_to_multiple_def round_even_minus)

lemma to_double_minus:
  "to_double (- x) = (case to_double x of Finite r \<Rightarrow> Finite (- r) | Infinity p \<Rightarrow> Infinity (\<not> p) | NaN \<Rightarrow> NaN)"
proof (cases "x = 0")
  case True
  then show ?thesis by (simp add: to_double_def)
next
  case False
  define r where "r = round_to_multiple (ulp_exponent x) x"
  have a: "to_double (- x) = (if overflow_threshold \<le> \<bar>r\<bar> then Infinity (0 < - r) else Finite (- r))"
    using to_double_nonzero[of "- x"] False
    by (simp add: ulp_exponent_minus round_to_multiple_minus r_def)
  have b: "to_double x = (if overflow_threshold \<le> \<bar>r\<bar> then Infinity (0 < r) else Finite r)"
    using to_double_nonzero[OF False] by (simp add: r_def)
  have c: "overflow_threshold \<le> \<bar>r\<bar> \<Longrightarrow> (0 < - r) = (\<not> 0 < r)"
    using overflow_threshold_pos by linarith
  show ?thesis unfolding a b using c by simp
qed

lemma round_to_multiple_err:
  "\<bar>round_to_multiple e x - x\<bar> \<le> 2 powi e / 2"
proof -
  have "round_to_multiple e x - x = (of_int (round_even (x / 2 powi e)) - x / 2 powi e) * 2 powi e"
    by (simp add: round_to_multiple_def left_diff_distrib)
  then have "\<bar>round_to_multiple e x - x\<bar> = \<bar>of_int (round_even (x / 2 powi e)) - x / 2 powi e\<bar> * 2 powi e"
    by (simp add: abs_mult)
  also have "\<dots> \<le> 1 / 2 * 2 powi e"
    by (intro mult_right_mono round_even_err) simp
  finally show ?thesis by simp
qed

lemma to_double_err:
  assumes "to_double x = Finite r" "\<bar>x\<bar> < 2 powi k" "- 1021 \<le> k"
  shows "\<bar>r - x\<bar> \<le> 2 powi (k - 54)"
proof (cases "x = 0")
  case True
  with assms show ?thesis by (simp add: to_double_def)
next
  case False
  have r: "r = round_to_multiple (ulp_exponent x) x"
    using assms(1) unfolding to_double_nonzero[OF False] by (simp split: if_splits)
  have "ulp_exponent x \<le> k - 53" using False assms by (intro ulp_exponent_le)
  then have "(2::real) powi ulp_exponent x \<le> 2 powi (k - 53)" by (rule pow2_mono)
  moreover have "(2::real) powi (k - 53) = 2 * 2 powi (k - 54)"
    using pow2_add[of 1 "k - 54"] by simp
  ultimately show ?thesis using round_to_multiple_err[of "ulp_exponent x" x] unfolding r by linarith
qed

lemma round_even_tie_down:
  assumes "of_int N \<le> y" "y \<le> of_int N + 1 / 2" "even N"
  shows "round_even y = N"
proof -
  have "\<lfloor>y\<rfloor> = N" using assms by (simp add: floor_eq_iff)
  then show ?thesis using assms by (simp add: round_even_def Let_def)
qed

lemma round_even_near:
  assumes "\<bar>y - of_int m\<bar> < 1 / 2"
  shows "round_even y = m"
proof (cases "of_int m \<le> y")
  case True
  then have "\<lfloor>y\<rfloor> = m" using assms by (simp add: floor_eq_iff)
  then show ?thesis using assms True by (simp add: round_even_def Let_def)
next
  case False
  then have "\<lfloor>y\<rfloor> = m - 1" using assms by (simp add: floor_eq_iff)
  then show ?thesis using assms False by (simp add: round_even_def Let_def)
qed

lemma to_double_near_1:
  assumes "1 \<le> y" "y \<le> 1 + 1 / 2 ^ 53"
  shows "to_double y = Finite 1"
proof -
  have "(2::real) powi 0 \<le> \<bar>y\<bar>" "\<bar>y\<bar> < 2 powi (0 + 1)" using assms by simp_all
  from ulp_exponent_eq[OF this] have E: "ulp_exponent y = - 52" by simp
  have "round_even (y / 2 powi (- 52)) = 2 ^ 52"
    using assms by (intro round_even_tie_down) (simp_all add: power_int_minus field_simps)
  then have "round_to_multiple (- 52) y = 1" by (simp add: round_to_multiple_def power_int_minus)
  moreover have "y \<noteq> 0" using assms by simp
  ultimately show ?thesis unfolding to_double_nonzero[OF \<open>y \<noteq> 0\<close>] E
    by (simp add: overflow_threshold_def)
qed

lemma to_double_nearest:
  assumes "(2::real) powi (k + 52) \<le> \<bar>x\<bar>" "\<bar>x\<bar> < 2 powi (k + 53)" "- 1074 \<le> k" "k \<le> 970"
    and "\<bar>x / 2 powi k - of_int m\<bar> < 1 / 2"
  shows "to_double x = Finite (of_int m * 2 powi k)"
proof -
  have "(0::real) < 2 powi (k + 52)" by simp
  then have "0 < \<bar>x\<bar>" using assms(1) by linarith
  then have x: "x \<noteq> 0" by simp
  have "\<bar>x\<bar> < 2 powi (k + 52 + 1)" using assms(2) by (simp add: add.commute add.left_commute)
  from ulp_exponent_eq[OF assms(1) this] assms(3) have E: "ulp_exponent x = k" by simp
  have r: "round_to_multiple k x = of_int m * 2 powi k"
    using round_even_near[OF assms(5)] by (simp add: round_to_multiple_def)
  have "\<bar>x\<bar> / 2 powi k < 2 ^ 53" using assms(2) by (simp add: pow2_add field_simps)
  then have "\<bar>x / 2 powi k\<bar> < 2 ^ 53" by (simp add: abs_divide)
  with assms(5) have "\<bar>of_int m :: real\<bar> < 2 ^ 53 + 1" by linarith
  then have "(of_int \<bar>m\<bar> :: real) < of_int (2 ^ 53 + 1)" by simp
  then have "\<bar>m\<bar> < 2 ^ 53 + 1" by (simp only: of_int_less_iff)
  then have "\<bar>m\<bar> \<le> 2 ^ 53" by simp
  then have "(of_int \<bar>m\<bar> :: real) \<le> of_int (2 ^ 53)" by (simp only: of_int_le_iff)
  then have "\<bar>of_int m :: real\<bar> \<le> 2 ^ 53" by simp
  then have "\<bar>of_int m * 2 powi k :: real\<bar> \<le> 2 ^ 53 * 2 powi k" by (simp add: abs_mult mult_right_mono)
  also have "\<dots> = 2 powi (k + 53)" by (simp add: pow2_add)
  also have "\<dots> \<le> 2 powi 1023" using assms(4) by (intro pow2_mono) simp
  finally have "\<bar>of_int m * 2 powi k :: real\<bar> < overflow_threshold" by (simp add: overflow_threshold_def)
  then show ?thesis unfolding to_double_nonzero[OF x] E r by simp
qed

lemma round_to_multiple_nonneg: "0 \<le> x \<Longrightarrow> 0 \<le> round_to_multiple e x"
proof -
  assume "0 \<le> x"
  then have "of_int 0 \<le> x / 2 powi e" by simp
  then have "0 \<le> round_even (x / 2 powi e)" by (rule round_even_ge)
  then show ?thesis by (simp add: round_to_multiple_def)
qed

lemma to_double_nonneg: "0 \<le> x \<Longrightarrow> to_double x = Finite r \<Longrightarrow> 0 \<le> r"
  using round_to_multiple_nonneg[of x "ulp_exponent x"]
  by (cases "x = 0") (auto simp add: to_double_def Let_def split: if_splits)

lemma round_to_multiple_ge:
  assumes "a = of_int N * 2 powi e" "a \<le> x"
  shows "a \<le> round_to_multiple e x"
proof -
  have "of_int N \<le> x / 2 powi e" using assms by (simp add: field_simps)
  then have "N \<le> round_even (x / 2 powi e)" by (rule round_even_ge)
  then have "(of_int N :: real) \<le> of_int (round_even (x / 2 powi e))" by simp
  then show ?thesis unfolding assms(1) round_to_multiple_def by (simp add: mult_right_mono)
qed

lemma to_double_ge:
  assumes "0 \<le> a" "a \<le> x" "is_double a" "to_double x = Finite r"
  shows "a \<le> r"
proof (cases "a = 0")
  case True
  then show ?thesis using to_double_nonneg[OF _ assms(4)] assms(1,2) by simp
next
  case False
  then have a: "0 < a" and x: "0 < x" "x \<noteq> 0" using assms(1,2) by simp_all
  have r: "r = round_to_multiple (ulp_exponent x) x"
    using assms(4) unfolding to_double_nonzero[OF x(2)] by (simp split: if_splits)
  have le: "ulp_exponent a \<le> ulp_exponent x"
    using False assms(1,2) by (intro ulp_exponent_mono) simp_all
  show ?thesis
  proof (cases "ulp_exponent a = ulp_exponent x")
    case True
    from assms(3) False obtain n :: int where "a = of_int n * 2 powi ulp_exponent a"
      by (auto simp add: is_double_def)
    then have "a = of_int n * 2 powi ulp_exponent x" using True by simp
    from round_to_multiple_ge[OF this assms(2)] show ?thesis by (simp add: r)
  next
    case False
    with le have lt: "ulp_exponent a < ulp_exponent x" by simp
    define e where "e = \<lfloor>log 2 \<bar>x\<bar>\<rfloor>"
    define ea where "ea = \<lfloor>log 2 \<bar>a\<bar>\<rfloor>"
    have E: "ulp_exponent x = e - 52" and ee: "ea + 1 \<le> e"
      using lt unfolding ulp_exponent_def e_def ea_def by linarith+
    have bx: "2 powi e \<le> x" using floor_log2_bounds[of "\<bar>x\<bar>"] x by (simp add: e_def)
    have ba: "a < 2 powi (ea + 1)" using floor_log2_bounds[of "\<bar>a\<bar>"] a by (simp add: ea_def)
    have "(2::real) powi e = of_int (2 ^ 52) * 2 powi (e - 52)"
      using pow2_add[of 52 "e - 52"] by simp
    from round_to_multiple_ge[OF this bx] have "2 powi e \<le> r" by (simp add: r E)
    moreover have "(2::real) powi (ea + 1) \<le> 2 powi e" using ee by (rule pow2_mono)
    ultimately show ?thesis using ba by linarith
  qed
qed

lemma to_double_abs_le:
  assumes "\<bar>x\<bar> \<le> d" "is_double d" "d < overflow_threshold"
  shows "\<exists>r. to_double x = Finite r \<and> \<bar>r\<bar> \<le> d"
proof (cases "0 \<le> x")
  case True
  with to_double_le[of x d] assms show ?thesis by auto
next
  case False
  then have "0 \<le> - x" "- x \<le> d" using assms(1) by simp_all
  from to_double_le[OF this assms(2,3)] obtain r where r: "to_double (- x) = Finite r" "0 \<le> r" "r \<le> d"
    by blast
  have "to_double x = Finite (- r)"
    using to_double_minus[of "- x"] r(1) by simp
  with r show ?thesis by simp
qed

lemma is_double_int: "\<bar>n\<bar> \<le> 2 ^ 53 \<Longrightarrow> is_double (of_int n)"
  by (rule is_doubleI[of _ n 0]) simp_all

lemma is_double_pow2: "- 1074 \<le> k \<Longrightarrow> is_double (2 powi k)"
  by (rule is_doubleI[of _ 1 k]) simp_all

lemma to_double_overflow:
  assumes "overflow_threshold \<le> x"
  shows "to_double x = Infinity True"
proof -
  have x: "0 < x" "x \<noteq> 0" using assms overflow_threshold_pos by linarith+
  define e where "e = \<lfloor>log 2 \<bar>x\<bar>\<rfloor>"
  have b: "2 powi e \<le> x" "x < 2 powi (e + 1)" using floor_log2_bounds[of "\<bar>x\<bar>"] x by (simp_all add: e_def)
  have "(2::real) powi 1024 < 2 powi (e + 1)" using assms b(2) by (simp add: overflow_threshold_def)
  then have e: "1024 \<le> e" using pow2_less_imp[of 1024 "e + 1"] by simp
  then have E: "ulp_exponent x = e - 52" by (simp add: ulp_exponent_def e_def)
  have "(2::real) powi e = of_int (2 ^ 52) * 2 powi (e - 52)"
    using pow2_add[of 52 "e - 52"] by simp
  from round_to_multiple_ge[OF this b(1)] have "2 powi e \<le> round_to_multiple (ulp_exponent x) x"
    by (simp add: E)
  moreover have "(2::real) powi 1024 \<le> 2 powi e" using e by (rule pow2_mono)
  ultimately have "overflow_threshold \<le> round_to_multiple (ulp_exponent x) x"
    by (simp add: overflow_threshold_def)
  then show ?thesis using overflow_threshold_pos unfolding to_double_nonzero[OF x(2)] by simp
qed

lemma round_even_tie_up:
  assumes "of_int N - 1 / 2 \<le> y" "y \<le> of_int N" "even N"
  shows "round_even y = N"
proof -
  have "round_even (- y) = - N"
    using assms by (intro round_even_tie_down) simp_all
  then show ?thesis by (simp add: round_even_minus)
qed

lemma to_double_near_1_below:
  assumes "1 - 1 / 2 ^ 54 \<le> y" "y \<le> 1"
  shows "to_double y = Finite 1"
proof (cases "y = 1")
  case True
  then show ?thesis using to_double_near_1[of 1] by simp
next
  case False
  have y: "y \<noteq> 0" using assms by auto
  have "(2::real) powi (- 1) \<le> \<bar>y\<bar>" "\<bar>y\<bar> < 2 powi (- 1 + 1)" using assms False by simp_all
  from ulp_exponent_eq[OF this] have E: "ulp_exponent y = - 53" by simp
  have "round_even (y / 2 powi (- 53)) = 2 ^ 53"
    using assms by (intro round_even_tie_up) (simp_all add: power_int_minus field_simps)
  then have "round_to_multiple (- 53) y = 1" by (simp add: round_to_multiple_def power_int_minus)
  then show ?thesis unfolding to_double_nonzero[OF y] E
    by (simp add: overflow_threshold_def)
qed

lemma overflow_threshold_gt: "x \<le> 2 ^ 1000 \<Longrightarrow> x < overflow_threshold"
proof -
  have "(2::real) ^ 1000 < 2 ^ 1024" by simp
  then show "x \<le> 2 ^ 1000 \<Longrightarrow> x < overflow_threshold" unfolding overflow_threshold_def by linarith
qed

lemma is_double_grid:
  assumes "is_double t" "1 / 2 \<le> t" "t < 1"
  shows "\<exists>n :: int. t = of_int n / 2 ^ 53 \<and> 2 ^ 52 \<le> n \<and> n < 2 ^ 53"
proof -
  have "(2::real) powi (- 1) \<le> \<bar>t\<bar>" "\<bar>t\<bar> < 2 powi (- 1 + 1)" using assms by simp_all
  from ulp_exponent_eq[OF this] have E: "ulp_exponent t = - 53" by simp
  from assms obtain n :: int where "t = of_int n * 2 powi (- 53)"
    unfolding is_double_def E by auto
  then have n: "t = of_int n / 2 ^ 53" by (simp add: power_int_minus field_simps)
  have "(of_int (2 ^ 52) :: real) \<le> of_int n" "(of_int n :: real) < of_int (2 ^ 53)"
    using assms(2,3) unfolding n by (simp_all add: field_simps)
  then have "2 ^ 52 \<le> n" "n < 2 ^ 53" by (simp_all only: of_int_le_iff of_int_less_iff)
  with n show ?thesis by blast
qed

lemma to_double_nearestI:
  assumes "r = of_int m * 2 powi k"
    and "(2::real) powi (k + 52) \<le> \<bar>x\<bar>" "\<bar>x\<bar> < 2 powi (k + 53)" "- 1074 \<le> k" "k \<le> 970"
    and "\<bar>x / 2 powi k - of_int m\<bar> < 1 / 2"
  shows "to_double x = Finite r"
  unfolding assms(1) by (rule to_double_nearest[OF assms(2-6)])

subsection \<open>The seeded value on every number\<close>

lemma seededRandom_number_not_finite:
  "seededRandom_number msin NaN = NaN" "seededRandom_number msin (Infinity p) = NaN"
  by (simp_all add: seededRandom_number_def)

lemma seededRandom_number_overflow:
  assumes "times_number (Finite s) (Finite 9999) = Infinity q"
  shows "seededRandom_number msin (Finite s) = NaN"
  unfolding seededRandom_number_def assms by simp

lemma seededRandom_number_finite:
  assumes m: "\<forall>a. \<bar>msin a\<bar> \<le> 1" and y: "times_number (Finite s) (Finite 9999) = Finite y"
  shows "\<exists>x r. times_number (Math_sin msin (Finite y)) (Finite 10000) = Finite x
           \<and> \<bar>x\<bar> \<le> 10000
           \<and> seededRandom_number msin (Finite s) = Finite r
           \<and> to_double (x - of_int \<lfloor>x\<rfloor>) = Finite r
           \<and> 0 \<le> r \<and> r \<le> 1"
proof -
  have d1: "is_double 1" using is_double_int[of 1] by simp
  have d2: "is_double 10000" using is_double_int[of 10000] by simp
  have o: "(1::real) < overflow_threshold" "(10000::real) < overflow_threshold"
    by (simp_all add: overflow_threshold_def)
  from to_double_abs_le[OF m[rule_format] d1 o(1)] obtain q
    where q: "to_double (msin y) = Finite q" "\<bar>q\<bar> \<le> 1" by blast
  have "\<bar>q * 10000\<bar> \<le> 10000" using q(2) by (simp add: abs_mult)
  from to_double_abs_le[OF this d2 o(2)] obtain x
    where x: "to_double (q * 10000) = Finite x" "\<bar>x\<bar> \<le> 10000" by blast
  have "0 \<le> x - of_int \<lfloor>x\<rfloor>" "x - of_int \<lfloor>x\<rfloor> \<le> 1" by linarith+
  from to_double_le[OF this d1 o(1)] obtain r
    where r: "to_double (x - of_int \<lfloor>x\<rfloor>) = Finite r" "0 \<le> r" "r \<le> 1" by blast
  have X: "times_number (Math_sin msin (Finite y)) (Finite 10000) = Finite x"
    by (simp add: q x)
  have "seededRandom_number msin (Finite s) = Finite r"
    unfolding seededRandom_number_def y X by (simp add: r)
  with X x r show ?thesis by blast
qed

text \<open>
  A seed of magnitude up to \<open>2\<^sup>1\<^sup>0\<^sup>0\<^sup>0\<close> has a finite product with 9999, the seed
  \<open>2\<^sup>1\<^sup>0\<^sup>2\<^sup>0\<close> has not.
\<close>

lemma seed_product_finite:
  assumes "\<bar>s\<bar> \<le> 2 ^ 1000"
  shows "\<exists>y. times_number (Finite s) (Finite 9999) = Finite y"
proof -
  have "\<bar>s * 9999\<bar> \<le> 2 ^ 1000 * 2 ^ 14"
    unfolding abs_mult using assms by (intro mult_mono) simp_all
  then have "\<bar>s * 9999\<bar> \<le> 2 powi 1014" by simp
  from to_double_abs_le[OF this is_double_pow2] show ?thesis
    by (auto simp add: overflow_threshold_def)
qed

text \<open>
  With the correctly rounded sine, the seed \<open>-2\<^sup>-\<^sup>1\<^sup>0\<^sup>0\<close> gives exactly 1: \<open>x\<close> is a tiny
  negative number, its floor is \<open>-1\<close>, and \<open>x + 1\<close> rounds to 1.
\<close>

lemma sin_ge_half:
  fixes z :: real
  assumes "0 \<le> z" "z \<le> 1 / 2"
  shows "z / 2 \<le> sin z"
proof -
  have "sin 0 - 0 / 2 \<le> sin z - z / 2"
  proof (rule DERIV_nonneg_imp_nondecreasing[OF assms(1)])
    fix x assume x: "0 \<le> x" "x \<le> z"
    have "x \<le> pi / 3" using x assms(2) pi_ge_two by linarith
    then have "cos (pi / 3) \<le> cos x" using x(1) by (intro cos_monotone_0_pi_le) simp_all
    then have "0 \<le> cos x - 1 / 2" by (simp add: cos_60)
    moreover have "((\<lambda>x. sin x - x / 2) has_real_derivative cos x - 1 / 2) (at x)"
      by (auto intro!: derivative_eq_intros)
    ultimately show "\<exists>y. ((\<lambda>x. sin x - x / 2) has_real_derivative y) (at x) \<and> 0 \<le> y"
      by blast
  qed
  then show ?thesis by simp
qed

lemma seededRandom_number_one:
  "seededRandom_number sin (Finite (- (1 / 2 ^ 100))) = Finite 1"
proof -
  define y :: real where "y = 9999 / 2 ^ 100"
  have "is_double (- y)"
    by (rule is_doubleI[of _ "- 9999" "- 100"]) (simp_all add: y_def power_int_minus field_simps)
  moreover have "\<bar>- y\<bar> < overflow_threshold" by (simp add: y_def overflow_threshold_def)
  ultimately have "to_double (- y) = Finite (- y)" by (rule to_double_exact)
  then have p: "times_number (Finite (- (1 / 2 ^ 100))) (Finite 9999) = Finite (- y)"
    by (simp add: y_def)
  define z where "z = sin y"
  have y0: "0 \<le> y" "y \<le> 1 / 2" by (simp_all add: y_def)
  have z: "y / 2 \<le> z" "z \<le> y" unfolding z_def
    using sin_ge_half[OF y0] sin_x_le_x[OF y0(1)] by simp_all
  have z0: "0 \<le> z" "z \<le> 2 powi (- 86)" "2 powi (- 88) \<le> z"
    using z by (simp_all add: y_def power_int_minus)
  from to_double_le[OF z0(1,2) is_double_pow2] obtain q
    where q: "to_double z = Finite q" "0 \<le> q" "q \<le> 2 powi (- 86)"
    by (auto simp add: overflow_threshold_def power_int_minus)
  have q2: "2 powi (- 88) \<le> q"
    by (rule to_double_ge[OF _ z0(3) is_double_pow2 q(1)]) simp_all
  have s: "Math_sin sin (Finite (- y)) = Finite (- q)"
    using to_double_minus[of z] q(1) by (simp add: z_def)
  have w0: "0 \<le> q * 10000" "q * 10000 \<le> 2 powi (- 72)" "2 powi (- 75) \<le> q * 10000"
    using q(2,3) q2 by (simp_all add: power_int_minus)
  from to_double_le[OF w0(1,2) is_double_pow2] obtain x
    where x: "to_double (q * 10000) = Finite x" "0 \<le> x" "x \<le> 2 powi (- 72)"
    by (auto simp add: overflow_threshold_def power_int_minus)
  have x2: "2 powi (- 75) \<le> x"
    by (rule to_double_ge[OF _ w0(3) is_double_pow2 x(1)]) simp_all
  have t: "times_number (Finite (- q)) (Finite 10000) = Finite (- x)"
    using to_double_minus[of "q * 10000"] x(1) by simp
  have xb: "0 < x" "x \<le> 1 / 2 ^ 72" using x(3) x2 by (simp_all add: power_int_minus)
  then have fl: "\<lfloor>- x\<rfloor> = - 1" by (simp add: floor_eq_iff)
  have "to_double (- x - of_int (- 1)) = Finite 1"
    using xb by (intro to_double_near_1_below) simp_all
  then show ?thesis
    unfolding seededRandom_number_def p s t by (simp add: fl)
qed

lemma seededRandom_number_big:
  "seededRandom_number msin (Finite (2 ^ 1020)) = NaN"
proof -
  have "to_double (2 ^ 1020 * 9999) = Infinity True"
    by (rule to_double_overflow) (simp add: overflow_threshold_def)
  then show ?thesis by (simp add: seededRandom_number_def)
qed

text \<open>
  Claim C4, as stated, at three seeds: \<^verbatim>\<open>Infinity\<close>, whose sine is NaN; the integer
  \<open>2\<^sup>1\<^sup>0\<^sup>2\<^sup>0\<close>, whose product with 9999 overflows to \<^verbatim>\<open>Infinity\<close>; and \<open>-2\<^sup>-\<^sup>1\<^sup>0\<^sup>0\<close>, for
  which the value returned is exactly 1 (here with the correctly rounded sine). None of
  the three values is in \<open>[0, 1)\<close>.
\<close>

theorem seededRandom_number_counterexample:
  "seededRandom_number sin (Infinity True) = NaN
   \<and> seededRandom_number sin (Finite (2 ^ 1020)) = NaN
   \<and> seededRandom_number sin (Finite (- (1 / 2 ^ 100))) = Finite 1
   \<and> \<not> in_unit_interval (seededRandom_number sin (Infinity True))
   \<and> \<not> in_unit_interval (seededRandom_number sin (Finite (2 ^ 1020)))
   \<and> \<not> in_unit_interval (seededRandom_number sin (Finite (- (1 / 2 ^ 100))))"
  unfolding seededRandom_number_not_finite seededRandom_number_big seededRandom_number_one
  by simp

text \<open>
  Claim C4, amended. For a NaN or infinite seed, and for a finite seed whose product
  \<^verbatim>\<open>seed * 9999\<close> overflows, \<^verbatim>\<open>seededRandom(seed)\<close> is NaN. For every other seed (in
  particular every seed of magnitude at most \<open>2\<^sup>1\<^sup>0\<^sup>0\<^sup>0\<close>), and with a \<^verbatim>\<open>Math.sin\<close> whose
  values are in \<open>[-1, 1]\<close>, the value is \<open>x - floor(x)\<close>, which is \<open>frac(x)\<close>, rounded to a
  number, for the number \<open>x\<close> computed as \<^verbatim>\<open>Math.sin(seed * 9999) * 10000\<close>; it lies in
  the closed interval \<open>[0, 1]\<close>. The value is a function of the seed (and of the sine of
  the platform) alone: two calls with the same seed return equal values.
\<close>

theorem seededRandom_number_closed_unit_interval:
  "seededRandom_number msin NaN = NaN
   \<and> seededRandom_number msin (Infinity p) = NaN
   \<and> (\<forall>q. times_number (Finite s) (Finite 9999) = Infinity q
         \<longrightarrow> seededRandom_number msin (Finite s) = NaN)
   \<and> ((\<forall>a. \<bar>msin a\<bar> \<le> 1) \<longrightarrow>
        (\<forall>y. times_number (Finite s) (Finite 9999) = Finite y \<longrightarrow>
           (\<exists>x r. times_number (Math_sin msin (Finite y)) (Finite 10000) = Finite x
                \<and> \<bar>x\<bar> \<le> 10000
                \<and> seededRandom_number msin (Finite s) = Finite r
                \<and> to_double (x - of_int \<lfloor>x\<rfloor>) = Finite r
                \<and> x - of_int \<lfloor>x\<rfloor> = frac x
                \<and> 0 \<le> r \<and> r \<le> 1))
        \<and> (\<bar>s\<bar> \<le> 2 ^ 1000 \<longrightarrow>
             (\<exists>r. seededRandom_number msin (Finite s) = Finite r \<and> 0 \<le> r \<and> r \<le> 1)))
   \<and> (seed = seed' \<longrightarrow> seededRandom_number msin seed = seededRandom_number msin seed')"
proof (intro conjI allI impI)
  fix y
  assume m: "\<forall>a. \<bar>msin a\<bar> \<le> 1" and y: "times_number (Finite s) (Finite 9999) = Finite y"
  from seededRandom_number_finite[OF m y]
  show "\<exists>x r. times_number (Math_sin msin (Finite y)) (Finite 10000) = Finite x
                \<and> \<bar>x\<bar> \<le> 10000
                \<and> seededRandom_number msin (Finite s) = Finite r
                \<and> to_double (x - of_int \<lfloor>x\<rfloor>) = Finite r
                \<and> x - of_int \<lfloor>x\<rfloor> = frac x
                \<and> 0 \<le> r \<and> r \<le> 1"
    by (simp add: frac_def)
next
  assume m: "\<forall>a. \<bar>msin a\<bar> \<le> 1" and s: "\<bar>s\<bar> \<le> 2 ^ 1000"
  from seed_product_finite[OF s] obtain y
    where y: "times_number (Finite s) (Finite 9999) = Finite y" by blast
  from seededRandom_number_finite[OF m y]
  show "\<exists>r. seededRandom_number msin (Finite s) = Finite r \<and> 0 \<le> r \<and> r \<le> 1"
    by blast
next
  fix q assume "times_number (Finite s) (Finite 9999) = Infinity q"
  then show "seededRandom_number msin (Finite s) = NaN" by (rule seededRandom_number_overflow)
qed (simp_all add: seededRandom_number_not_finite)

theorem seededRandom_number_closed_unit_interval_witness:
  "(\<forall>a :: real. \<bar>sin a\<bar> \<le> 1)
   \<and> times_number (Finite 1) (Finite 9999) = Finite 9999
   \<and> (\<exists>x r. times_number (Math_sin sin (Finite 9999)) (Finite 10000) = Finite x
          \<and> seededRandom_number sin (Finite 1) = Finite r
          \<and> to_double (x - of_int \<lfloor>x\<rfloor>) = Finite r
          \<and> 0 \<le> r \<and> r \<le> 1)
   \<and> times_number (Finite (2 ^ 1020)) (Finite 9999) = Infinity True
   \<and> seededRandom_number sin (Finite (2 ^ 1020)) = NaN
   \<and> seededRandom_number sin (Finite 0) = Finite 0"
proof -
  note t = seededRandom_number_closed_unit_interval[of sin _ 1]
  have m: "\<forall>a :: real. \<bar>sin a\<bar> \<le> 1" by simp
  have "to_double 9999 = Finite 9999"
    using to_double_exact[OF is_double_int[of 9999]] by (simp add: overflow_threshold_def)
  then have y: "times_number (Finite 1) (Finite 9999) = Finite 9999" by simp
  from t[THEN conjunct2, THEN conjunct2, THEN conjunct2, THEN conjunct1, THEN mp, OF m,
      THEN conjunct1, rule_format, OF y]
  have a: "\<exists>x r. times_number (Math_sin sin (Finite 9999)) (Finite 10000) = Finite x
          \<and> seededRandom_number sin (Finite 1) = Finite r
          \<and> to_double (x - of_int \<lfloor>x\<rfloor>) = Finite r
          \<and> 0 \<le> r \<and> r \<le> 1"
    by blast
  have "to_double (2 ^ 1020 * 9999) = Infinity True"
    by (rule to_double_overflow) (simp add: overflow_threshold_def)
  then have o: "times_number (Finite (2 ^ 1020)) (Finite 9999) = Infinity True" by simp
  from seededRandom_number_closed_unit_interval[of sin _ "2 ^ 1020", THEN conjunct2,
      THEN conjunct2, THEN conjunct1, rule_format, OF o]
  have b: "seededRandom_number sin (Finite (2 ^ 1020)) = NaN" .
  have c: "seededRandom_number sin (Finite 0) = Finite 0"
    by (simp add: seededRandom_number_def to_double_def)
  from m y a o b c show ?thesis by blast
qed

subsection \<open>The seeded value and the slot layout\<close>

lemma seededRandom_0: "seededRandom 0 = 0"
  by (simp add: seededRandom_def)

lemma DREAM_POSITIONS_length: "length DREAM_POSITIONS = 14"
  by (simp add: DREAM_POSITIONS_def)

lemma base_sizes: "CORE_BASE_SIZE = 864" "DREAM_BASE_SIZE = 684"
  by (simp_all add: CORE_BASE_SIZE_def DREAM_BASE_SIZE_def MIN_DIM_def
        POSTER_WIDTH_def POSTER_HEIGHT_def)

text \<open>What \<^verbatim>\<open>DreamSlot\<close> computes for an index that has a preset position.\<close>

lemma DreamSlot_in_range:
  assumes "0 \<le> i" "i < 14"
  shows "DreamSlot i config isSelected =
     Some \<lparr>slot_x = pos_x (DREAM_POSITIONS ! nat i) * POSTER_WIDTH
                + (seededRandom (of_int i * 7) - 0.5) * POSTER_WIDTH * 0.04 + offsetX config,
           slot_y = pos_y (DREAM_POSITIONS ! nat i) * POSTER_HEIGHT
                + (seededRandom (of_int i * 13) - 0.5) * POSTER_HEIGHT * 0.04 + offsetY config,
           slot_rotation = (seededRandom (of_int i * 23) - 0.5) * 0.9
                + rotation config * pi / 180,
           slot_zIndex = (if isSelected then 200 + of_int i else 50 + of_int i),
           slot_baseSize = DREAM_BASE_SIZE
                * (pos_size (DREAM_POSITIONS ! nat i)
                    * (0.8 + seededRandom (of_int i * 17) * 0.4)),
           slot_ring = HighlightRing
               (DREAM_BASE_SIZE
                 * (pos_size (DREAM_POSITIONS ! nat i)
                     * (0.8 + seededRandom (of_int i * 17) * 0.4)) / 2
                 * or_number (size_field config) 1) isSelected,
           posMultiplier = pos_size (DREAM_POSITIONS ! nat i)
                * (0.8 + seededRandom (of_int i * 17) * 0.4),
           baseX = pos_x (DREAM_POSITIONS ! nat i) * POSTER_WIDTH
                + (seededRandom (of_int i * 7) - 0.5) * POSTER_WIDTH * 0.04,
           baseY = pos_y (DREAM_POSITIONS ! nat i) * POSTER_HEIGHT
                + (seededRandom (of_int i * 13) - 0.5) * POSTER_HEIGHT * 0.04,
           baseRotation = (seededRandom (of_int i * 23) - 0.5) * 0.9\<rparr>"
  using assms
  by (simp add: DreamSlot_def DREAM_POSITIONS_length Let_def or_number_def)

text \<open>
  Claim C7. For a dream slot whose index \<open>i\<close> is one of \<open>0, \<dots>, 13\<close>, with the preset
  \<open>DREAM_POSITIONS[i]\<close>: the size multiplier is \<open>size * (0.8 + seededRandom(i*17) * 0.4)\<close>;
  the base position is \<open>x * POSTER_WIDTH + (seededRandom(i*7) - 0.5) * POSTER_WIDTH * 0.04\<close>
  and \<open>y * POSTER_HEIGHT + (seededRandom(i*13) - 0.5) * POSTER_HEIGHT * 0.04\<close>, and the
  final position adds the configured offsets; the base rotation is
  \<open>(seededRandom(i*23) - 0.5) * 0.9\<close>, and the final rotation adds the configured
  rotation times \<open>\<pi>/180\<close>. All of them are values of the index and of the three
  configured numbers alone: another slot configuration with the same offsets and
  rotation, selected or not, gives the same layout.
\<close>

theorem DreamSlot_layout:
  "0 \<le> i \<and> i < 14 \<longrightarrow>
     (\<exists>d. DreamSlot i config isSelected = Some d
        \<and> posMultiplier d = pos_size (DREAM_POSITIONS ! nat i)
                              * (0.8 + seededRandom (of_int i * 17) * 0.4)
        \<and> baseX d = pos_x (DREAM_POSITIONS ! nat i) * POSTER_WIDTH
                      + (seededRandom (of_int i * 7) - 0.5) * POSTER_WIDTH * 0.04
        \<and> baseY d = pos_y (DREAM_POSITIONS ! nat i) * POSTER_HEIGHT
                      + (seededRandom (of_int i * 13) - 0.5) * POSTER_HEIGHT * 0.04
        \<and> slot_x d = baseX d + offsetX config
        \<and> slot_y d = baseY d + offsetY config
        \<and> baseRotation d = (seededRandom (of_int i * 23) - 0.5) * 0.9
        \<and> slot_rotation d = baseRotation d + rotation config * pi / 180
        \<and> (\<forall>config' isSelected'.
              offsetX config' = offsetX config \<and> offsetY config' = offsetY config
              \<and> rotation config' = rotation config \<longrightarrow>
              (\<exists>d'. DreamSlot i config' isSelected' = Some d'
                 \<and> posMultiplier d' = posMultiplier d
                 \<and> baseX d' = baseX d \<and> baseY d' = baseY d
                 \<and> slot_x d' = slot_x d \<and> slot_y d' = slot_y d
                 \<and> baseRotation d' = baseRotation d
                 \<and> slot_rotation d' = slot_rotation d)))"
proof
  assume "0 \<le> i \<and> i < 14"
  then have r: "0 \<le> i" "i < 14" by simp_all
  show "\<exists>d. DreamSlot i config isSelected = Some d
        \<and> posMultiplier d = pos_size (DREAM_POSITIONS ! nat i)
                              * (0.8 + seededRandom (of_int i * 17) * 0.4)
        \<and> baseX d = pos_x (DREAM_POSITIONS ! nat i) * POSTER_WIDTH
                      + (seededRandom (of_int i * 7) - 0.5) * POSTER_WIDTH * 0.04
        \<and> baseY d = pos_y (DREAM_POSITIONS ! nat i) * POSTER_HEIGHT
                      + (seededRandom (of_int i * 13) - 0.5) * POSTER_HEIGHT * 0.04
        \<and> slot_x d = baseX d + offsetX config
        \<and> slot_y d = baseY d + offsetY config
        \<and> baseRotation d = (seededRandom (of_int i * 23) - 0.5) * 0.9
        \<and> slot_rotation d = baseRotation d + rotation config * pi / 180
        \<and> (\<forall>config' isSelected'.
              offsetX config' = offsetX config \<and> offsetY config' = offsetY config
              \<and> rotation config' = rotation config \<longrightarrow>
              (\<exists>d'. DreamSlot i config' isSelected' = Some d'
                 \<and> posMultiplier d' = posMultiplier d
                 \<and> baseX d' = baseX d \<and> baseY d' = baseY d
                 \<and> slot_x d' = slot_x d \<and> slot_y d' = slot_y d
                 \<and> baseRotation d' = baseRotation d
                 \<and> slot_rotation d' = slot_rotation d))"
    by (simp add: DreamSlot_in_range[OF r])
qed

theorem DreamSlot_layout_witness:
  "(0::int) \<le> 0 \<and> (0::int) < 14
   \<and> (\<exists>d. DreamSlot 0 example_slot False = Some d
        \<and> posMultiplier d = 0.92
        \<and> baseX d = - 612 \<and> baseY d = - 960
        \<and> slot_x d = - 602 \<and> slot_y d = - 965
        \<and> baseRotation d = - 0.45
        \<and> slot_rotation d = - 0.45 + pi / 2)"
  using DreamSlot_layout[of 0 example_slot False]
  by (auto simp add: seededRandom_0 DREAM_POSITIONS_def POSTER_WIDTH_def POSTER_HEIGHT_def
        example_slot_def DEFAULT_SLOT_CONFIG_def)

subsection \<open>The selection ring\<close>

text \<open>
  Claim C9, as stated, at the selected core slot with the default configuration
  (size 1): the claim puts the outer ring at \<open>CORE_BASE_SIZE / 2 * 1 + 20 = 452\<close>; the
  code draws it at \<open>CORE_BASE_SIZE * 0.6 * 1 + 20 = 538.4\<close>.
\<close>

theorem CoreSlot_ring_counterexample:
  "slot_ring (CoreSlot DEFAULT_SLOT_CONFIG True) =
     Some \<lparr>graphics_zIndex = 1000, strokes =
       [\<lparr>ring_radius = 538.4, ring_color = 0x3b82f6, ring_width = 4, ring_alpha = 0.25\<rparr>,
        \<lparr>ring_radius = 530.4, ring_color = 0x3b82f6, ring_width = 5, ring_alpha = 0.5\<rparr>,
        \<lparr>ring_radius = 526.4, ring_color = 0x60a5fa, ring_width = 2, ring_alpha = 0.8\<rparr>]\<rparr>
   \<and> CORE_BASE_SIZE / 2 * size_field DEFAULT_SLOT_CONFIG + 20 = 452"
  by (simp add: CoreSlot_def HighlightRing_def drawRing_def or_number_def base_sizes
        DEFAULT_SLOT_CONFIG_def)

text \<open>
  Claim C9, amended. The selection overlay of a selected slot is one graphics node at
  \<open>zIndex\<close> 1000 with three concentric ring strokes of radii \<open>radius + 20\<close>,
  \<open>radius + 12\<close> and \<open>radius + 8\<close> and opacities 0.25, 0.5 and 0.8 (the opacity decreases
  outwards), where \<open>radius = baseRadius * size\<close>; \<open>baseRadius\<close> is \<open>CORE_BASE_SIZE * 0.6\<close>
  for the core slot and \<open>baseSlotSize / 2\<close> for a dream slot with a preset position, and
  \<open>size\<close> is the configured size multiplier, a configured 0 counting as 1. A slot that
  is not selected has no overlay.
\<close>

theorem selection_ring:
  "(\<exists>g. slot_ring (CoreSlot config True) = Some g
      \<and> graphics_zIndex g = 1000
      \<and> map ring_radius (strokes g) =
          [CORE_BASE_SIZE * 0.6 * or_number (size_field config) 1 + 20,
           CORE_BASE_SIZE * 0.6 * or_number (size_field config) 1 + 12,
           CORE_BASE_SIZE * 0.6 * or_number (size_field config) 1 + 8]
      \<and> map ring_alpha (strokes g) = [0.25, 0.5, 0.8])
   \<and> slot_ring (CoreSlot config False) = None
   \<and> (0 \<le> i \<and> i < 14 \<longrightarrow>
       (\<exists>d g. DreamSlot i config True = Some d \<and> slot_ring d = Some g
          \<and> slot_baseSize d = DREAM_BASE_SIZE * posMultiplier d
          \<and> graphics_zIndex g = 1000
          \<and> map ring_radius (strokes g) =
              [slot_baseSize d / 2 * or_number (size_field config) 1 + 20,
               slot_baseSize d / 2 * or_number (size_field config) 1 + 12,
               slot_baseSize d / 2 * or_number (size_field config) 1 + 8]
          \<and> map ring_alpha (strokes g) = [0.25, 0.5, 0.8])
       \<and> (\<exists>d. DreamSlot i config False = Some d \<and> slot_ring d = None))"
proof (intro conjI impI)
  show "\<exists>g. slot_ring (CoreSlot config True) = Some g
      \<and> graphics_zIndex g = 1000
      \<and> map ring_radius (strokes g) =
          [CORE_BASE_SIZE * 0.6 * or_number (size_field config) 1 + 20,
           CORE_BASE_SIZE * 0.6 * or_number (size_field config) 1 + 12,
           CORE_BASE_SIZE * 0.6 * or_number (size_field config) 1 + 8]
      \<and> map ring_alpha (strokes g) = [0.25, 0.5, 0.8]"
    by (simp add: CoreSlot_def HighlightRing_def drawRing_def)
  show "slot_ring (CoreSlot config False) = None"
    by (simp add: CoreSlot_def HighlightRing_def)
next
  assume "0 \<le> i \<and> i < 14"
  then have r: "0 \<le> i" "i < 14" by simp_all
  show "\<exists>d g. DreamSlot i config True = Some d \<and> slot_ring d = Some g
          \<and> slot_baseSize d = DREAM_BASE_SIZE * posMultiplier d
          \<and> graphics_zIndex g = 1000
          \<and> map ring_radius (strokes g) =
              [slot_baseSize d / 2 * or_number (size_field config) 1 + 20,
               slot_baseSize d / 2 * or_number (size_field config) 1 + 12,
               slot_baseSize d / 2 * or_number (size_field config) 1 + 8]
          \<and> map ring_alpha (strokes g) = [0.25, 0.5, 0.8]"
    by (simp add: DreamSlot_in_range[OF r] HighlightRing_def drawRing_def)
  show "\<exists>d. DreamSlot i config False = Some d \<and> slot_ring d = None"
    by (simp add: DreamSlot_in_range[OF r] HighlightRing_def)
qed

theorem selection_ring_witness:
  "(0::int) \<le> 0 \<and> (0::int) < 14
   \<and> (\<exists>d g. DreamSlot 0 example_slot True = Some d \<and> slot_ring d = Some g
        \<and> slot_baseSize d = 629.28
        \<and> graphics_zIndex g = 1000
        \<and> map ring_radius (strokes g) = [491.96, 483.96, 479.96]
        \<and> map ring_alpha (strokes g) = [0.25, 0.5, 0.8])
   \<and> (\<exists>g. slot_ring (CoreSlot example_slot True) = Some g
        \<and> map ring_radius (strokes g) = [797.6, 789.6, 785.6])"
  using selection_ring[of example_slot 0]
  by (auto simp add: DreamSlot_in_range seededRandom_0 DREAM_POSITIONS_def base_sizes
        example_slot_def DEFAULT_SLOT_CONFIG_def or_number_def)

subsection \<open>The masked texture\<close>

text \<open>The smoothstep polynomial on the unit interval, in exact arithmetic.\<close>

lemma smooth_nonneg: "0 \<le> t \<Longrightarrow> t \<le> 1 \<Longrightarrow> 0 \<le> t * t * (3 - 2 * t)" for t :: real
  by (intro mult_nonneg_nonneg) simp_all

lemma smooth_le_1: "0 \<le> t \<Longrightarrow> t \<le> 1 \<Longrightarrow> t * t * (3 - 2 * t) \<le> 1" for t :: real
proof -
  assume a: "0 \<le> t" "t \<le> 1"
  have "1 - t * t * (3 - 2 * t) = (1 - t) * (1 - t) * (1 + 2 * t)"
    by (simp add: algebra_simps)
  moreover have "0 \<le> (1 - t) * (1 - t) * (1 + 2 * t)"
    using a by (intro mult_nonneg_nonneg) simp_all
  ultimately show ?thesis by simp
qed

text \<open>
  The smoothstep as it is computed stays in the unit interval: for \<open>t\<close> near 1 the factor
  \<open>3 - 2t\<close> is exact and the rounded square is within \<open>2\<^sup>-\<^sup>5\<^sup>4\<close> of \<open>t\<^sup>2\<close>, so the product is at most
  \<open>1 + 2\<^sup>-\<^sup>5\<^sup>3\<close>, which rounds to 1.
\<close>

lemma smoothstep_number_range:
  assumes d: "is_double t" and t: "0 \<le> t" "t \<le> 1"
  shows "\<exists>s. times_number (times_number (Finite t) (Finite t))
                (minus_number (Finite 3) (times_number (Finite 2) (Finite t))) = Finite s
             \<and> 0 \<le> s \<and> s \<le> 1"
proof -
  have d1: "is_double 1" "is_double 2" "is_double 3"
    using is_double_int[of 1] is_double_int[of 2] is_double_int[of 3] by simp_all
  have o: "(1::real) < overflow_threshold" "(2::real) < overflow_threshold"
    "(3::real) < overflow_threshold"
    by (simp_all add: overflow_threshold_def)
  have tt: "0 \<le> t * t" "t * t \<le> 1" using t by (simp_all add: mult_le_one)
  from to_double_le[OF tt d1(1) o(1)] obtain A
    where A: "to_double (t * t) = Finite A" "0 \<le> A" "A \<le> 1" by blast
  have "0 \<le> 2 * t" "2 * t \<le> 2" using t by simp_all
  from to_double_le[OF this d1(2) o(2)] obtain D
    where D: "to_double (2 * t) = Finite D" "0 \<le> D" "D \<le> 2" by blast
  have "0 \<le> 3 - D" "3 - D \<le> 3" using D by simp_all
  from to_double_le[OF this d1(3) o(3)] obtain B
    where B: "to_double (3 - D) = Finite B" "0 \<le> B" "B \<le> 3" by blast
  have e: "times_number (times_number (Finite t) (Finite t))
                (minus_number (Finite 3) (times_number (Finite 2) (Finite t)))
           = to_double (A * B)"
    by (simp add: A D B)
  have AB0: "0 \<le> A * B" using A B by simp
  have "A * B \<le> 1 + 1 / 2 ^ 53"
  proof (cases "t \<le> 1 / 2")
    case True
    have "0 \<le> t * t" "t * t \<le> 2 powi (- 2)"
      using t True mult_mono[of t "1 / 2" t "1 / 2"] by (simp_all add: power_int_minus)
    from to_double_le[OF this is_double_pow2] A(1) have "A \<le> 1 / 4"
      by (auto simp add: overflow_threshold_def power_int_minus)
    then have "A * B \<le> 1 / 4 * 3" using A B by (intro mult_mono) simp_all
    then show ?thesis by simp
  next
    case False
    show ?thesis
    proof (cases "t = 1")
      case True
      have "to_double 1 = Finite 1" "to_double 2 = Finite 2"
        using to_double_exact[OF d1(1)] to_double_exact[OF d1(2)] o by simp_all
      then have "A = 1" "B = 1" using A(1) D(1) B(1) True by auto
      then show ?thesis by simp
    next
      case ne: False
      with False t have h: "1 / 2 \<le> t" "t < 1" by simp_all
      from is_double_grid[OF d h] obtain n :: int
        where n: "t = of_int n / 2 ^ 53" "2 ^ 52 \<le> n" "n < 2 ^ 53" by blast
      have "is_double (2 * t)"
        by (rule is_doubleI[of _ n "- 52"]) (use n in \<open>simp_all add: power_int_minus\<close>)
      from to_double_exact[OF this] D(1) have D2: "D = 2 * t"
        using t o by (simp add: overflow_threshold_def)
      have "is_double (3 - 2 * t)"
        by (rule is_doubleI[of _ "3 * 2 ^ 52 - n" "- 52"])
           (use n in \<open>simp_all add: power_int_minus field_simps\<close>)
      from to_double_exact[OF this] B(1) have B2: "B = 3 - 2 * t"
        using t o unfolding D2 by (simp add: overflow_threshold_def)
      have "\<bar>t * t\<bar> < 2 powi 0" using h t mult_strict_mono[of t 1 t 1] by simp
      from to_double_err[OF A(1) this] have "\<bar>A - t * t\<bar> \<le> 2 powi (0 - 54)" by simp
      moreover have "(2::real) powi (0 - 54) = 1 / 2 ^ 54" by (simp add: power_int_minus)
      ultimately have "A \<le> t * t + 1 / 2 ^ 54" by linarith
      then have "A * B \<le> (t * t + 1 / 2 ^ 54) * B" using B(2) by (rule mult_right_mono)
      also have "\<dots> = t * t * (3 - 2 * t) + 1 / 2 ^ 54 * (3 - 2 * t)"
        unfolding B2 by (simp add: algebra_simps)
      also have "\<dots> \<le> 1 + 1 / 2 ^ 54 * 2"
        using smooth_le_1[OF t] h by (intro add_mono mult_left_mono) simp_all
      finally show ?thesis by simp
    qed
  qed
  then have "\<exists>s. to_double (A * B) = Finite s \<and> 0 \<le> s \<and> s \<le> 1"
  proof (cases "A * B \<le> 1")
    case True
    from to_double_le[OF AB0 True d1(1) o(1)] show ?thesis .
  next
    case False
    then have "to_double (A * B) = Finite 1"
      using \<open>A * B \<le> 1 + 1 / 2 ^ 53\<close> by (intro to_double_near_1) simp_all
    then show ?thesis by simp
  qed
  with e show ?thesis by simp
qed

text \<open>The numbers that the literals \<^verbatim>\<open>0.4\<close>, \<^verbatim>\<open>0.6\<close> and \<^verbatim>\<open>0.08\<close> denote.\<close>

lemma literal_0_4: "to_double 0.4 = Finite (3602879701896397 / 2 ^ 53)"
  by (rule to_double_nearestI[where m = 7205759403792794 and k = "- 54"])
     (simp_all add: power_int_minus)

lemma literal_0_6: "to_double 0.6 = Finite (5404319552844595 / 2 ^ 53)"
  by (rule to_double_nearestI[where m = 5404319552844595 and k = "- 53"])
     (simp_all add: power_int_minus)

lemma literal_0_08: "to_double 0.08 = Finite (5764607523034235 / 2 ^ 56)"
  by (rule to_double_nearestI[where m = 5764607523034235 and k = "- 56"])
     (simp_all add: power_int_minus)

text \<open>The two mask factors are numbers in the unit interval.\<close>

lemma circularAlpha_Finite:
  "circularAlpha (Finite r) =
     (if r < 3602879701896397 / 2 ^ 53 then Finite 1
      else if 1 < r then Finite 0
      else
        (let t = divide_number (to_double (r - 3602879701896397 / 2 ^ 53))
                   (Finite (5404319552844595 / 2 ^ 53))
         in minus_number (Finite 1)
              (times_number (times_number t t)
                 (minus_number (Finite 3) (times_number (Finite 2) t)))))"
  unfolding circularAlpha_def literal_0_4 literal_0_6 by simp

lemma circularAlpha_range:
  assumes "ratio \<noteq> NaN"
  shows "\<exists>c. circularAlpha ratio = Finite c \<and> 0 \<le> c \<and> c \<le> 1"
proof (cases ratio)
  case (Finite r)
  define a :: real where "a = 3602879701896397 / 2 ^ 53"
  define b :: real where "b = 5404319552844595 / 2 ^ 53"
  have ab: "a + b = 1" "0 < b" "b < 1" by (simp_all add: a_def b_def)
  have db: "is_double b" unfolding b_def
    by (rule is_doubleI[of _ 5404319552844595 "- 53"]) (simp_all add: power_int_minus)
  have d1: "is_double 1" using is_double_int[of 1] by simp
  have o: "b < overflow_threshold" "(1::real) < overflow_threshold"
    using ab by (simp_all add: overflow_threshold_def)
  show ?thesis
  proof (cases "r < a \<or> 1 < r")
    case True
    then show ?thesis unfolding Finite circularAlpha_Finite a_def by auto
  next
    case False
    then have r: "0 \<le> r - a" "r - a \<le> b" using ab by simp_all
    from to_double_le[OF r db o(1)] obtain v
      where v: "to_double (r - a) = Finite v" "0 \<le> v" "v \<le> b" by blast
    have "0 \<le> v / b" "v / b \<le> 1" using v ab by simp_all
    from to_double_le[OF this d1 o(2)] obtain t
      where t: "to_double (v / b) = Finite t" "0 \<le> t" "t \<le> 1" by blast
    from smoothstep_number_range[OF to_double_is_double[OF t(1)] t(2,3)] obtain s
      where s: "times_number (times_number (Finite t) (Finite t))
                (minus_number (Finite 3) (times_number (Finite 2) (Finite t))) = Finite s"
        "0 \<le> s" "s \<le> 1" by blast
    have "0 \<le> 1 - s" "1 - s \<le> 1" using s by simp_all
    from to_double_le[OF this d1 o(2)] obtain c
      where c: "to_double (1 - s) = Finite c" "0 \<le> c" "c \<le> 1" by blast
    have "divide_number (to_double (r - a)) (Finite b) = Finite t"
      using ab by (simp add: v t)
    then have "circularAlpha (Finite r) = minus_number (Finite 1)
        (times_number (times_number (Finite t) (Finite t))
                (minus_number (Finite 3) (times_number (Finite 2) (Finite t))))"
      using False unfolding circularAlpha_Finite a_def[symmetric] b_def[symmetric]
      by (simp add: Let_def del: times_number.simps minus_number.simps)
    then have "circularAlpha (Finite r) = Finite c"
      unfolding s(1) by (simp add: c)
    with c show ?thesis unfolding Finite by blast
  qed
next
  case (Infinity p)
  then show ?thesis unfolding circularAlpha_def literal_0_4 by (cases p) simp_all
next
  case NaN
  with assms show ?thesis by simp
qed

lemma edgeAlpha_range:
  "\<exists>e. edgeAlpha f m = Finite e \<and> 0 \<le> e \<and> e \<le> 1"
proof -
  consider "\<not> less_number (Finite 0) f" | "less_number (Finite 0) f" "less_number m (Finite 0)"
    | "less_number (Finite 0) f" "\<not> less_number m (Finite 0)" "\<not> less_number m f"
    | "less_number (Finite 0) f" "\<not> less_number m (Finite 0)" "less_number m f"
    by blast
  then show ?thesis
  proof cases
    case 4
    from 4(3) obtain m' where m: "m = Finite m'"
      using 4(2) by (cases m; cases f) auto
    have m0: "0 \<le> m'" using 4(2) by (simp add: m)
    have d1: "is_double 1" using is_double_int[of 1] by simp
    have o: "(1::real) < overflow_threshold" by (simp add: overflow_threshold_def)
    have "\<exists>t. divide_number m f = Finite t \<and> is_double t \<and> 0 \<le> t \<and> t \<le> 1"
    proof (cases f)
      case (Finite f')
      with 4(1,3) m have f: "0 < f'" "m' < f'" by simp_all
      have "0 \<le> m' / f'" "m' / f' \<le> 1" using f m0 by simp_all
      from to_double_le[OF this d1 o] obtain t
        where t: "to_double (m' / f') = Finite t" "0 \<le> t" "t \<le> 1" by blast
      then show ?thesis using f to_double_is_double[OF t(1)] by (simp add: m Finite)
    next
      case (Infinity p)
      then show ?thesis by (simp add: m is_double_def)
    next
      case NaN
      with 4(1) show ?thesis by simp
    qed
    then obtain t where t: "divide_number m f = Finite t" "is_double t" "0 \<le> t" "t \<le> 1"
      by blast
    have "edgeAlpha f m = times_number (times_number (Finite t) (Finite t))
                (minus_number (Finite 3) (times_number (Finite 2) (Finite t)))"
      using 4 by (simp add: edgeAlpha_def t(1) Let_def del: times_number.simps minus_number.simps)
    with smoothstep_number_range[OF t(2-4)] show ?thesis by simp
  qed (simp_all add: edgeAlpha_def)
qed

text \<open>The invariants of the two loops: after \<open>m\<close> iterations exactly the alpha bytes of the
  pixels visited so far have been rewritten, each from the byte that was there.\<close>

lemma fade_pixel_eq:
  "fade_pixel n b py px data =
     (if pixel_idx n px py + 3 < length data
      then data[pixel_idx n px py + 3 := faded_byte n b px py (data ! (pixel_idx n px py + 3))]
      else data)"
  by (simp add: fade_pixel_def write_byte_def read_byte_def faded_byte_def Let_def)

lemma pixel_idx_inj:
  assumes "px < n" "px' < n" "pixel_idx n px py = pixel_idx n px' py'"
  shows "px = px' \<and> py = py'"
proof -
  from assms(3) have e: "py * n + px = py' * n + px'"
    by (simp add: pixel_idx_def)
  have "(py * n + px) mod n = px" "(py' * n + px') mod n = px'"
    using assms(1,2) by simp_all
  with e have 1: "px = px'" by simp
  have "(py * n + px) div n = py" "(py' * n + px') div n = py'"
    using assms(1,2) by simp_all
  with e have "py = py'" by simp
  with 1 show ?thesis by simp
qed

lemma pixel_idx_bound:
  assumes "px < n" "py < n"
  shows "pixel_idx n px py + 3 < 4 * n * n"
proof -
  have "py * n + px < Suc py * n" using assms(1) by simp
  also have "\<dots> \<le> n * n" using assms(2) by (intro mult_le_mono) simp_all
  finally have "py * n + px < n * n" .
  then show ?thesis by (simp add: pixel_idx_def)
qed

lemma fade_row_Suc: "fade_row n b py (Suc m) data = fade_pixel n b py m (fade_row n b py m data)"
  by (simp add: fade_row_def)

lemma fade_row_invariant:
  assumes "py < n" "length data = 4 * n * n"
  shows "m \<le> n \<Longrightarrow>
     length (fade_row n b py m data) = length data
     \<and> (\<forall>px<n. fade_row n b py m data ! (pixel_idx n px py + 3)
            = (if px < m then faded_byte n b px py (data ! (pixel_idx n px py + 3))
               else data ! (pixel_idx n px py + 3)))
     \<and> (\<forall>j. (\<forall>px<m. j \<noteq> pixel_idx n px py + 3) \<longrightarrow> fade_row n b py m data ! j = data ! j)"
proof (induction m)
  case 0
  then show ?case by (simp add: fade_row_def)
next
  case (Suc m)
  let ?d = "fade_row n b py m data"
  let ?i = "pixel_idx n m py + 3"
  from Suc have m: "m < n" and len: "length ?d = length data"
    and a: "\<And>px. px < n \<Longrightarrow> ?d ! (pixel_idx n px py + 3)
            = (if px < m then faded_byte n b px py (data ! (pixel_idx n px py + 3))
               else data ! (pixel_idx n px py + 3))"
    and b: "\<And>j. (\<forall>px<m. j \<noteq> pixel_idx n px py + 3) \<Longrightarrow> ?d ! j = data ! j"
    by simp_all
  have i: "?i < length ?d"
    using pixel_idx_bound[OF m assms(1)] len assms(2) by simp
  have step: "fade_row n b py (Suc m) data = ?d[?i := faded_byte n b m py (?d ! ?i)]"
    using i by (simp add: fade_row_Suc fade_pixel_eq)
  have old: "?d ! ?i = data ! ?i"
    using a[OF m] by simp
  have ne: "pixel_idx n px py + 3 \<noteq> ?i" if "px < n" "px \<noteq> m" for px
    using pixel_idx_inj[OF that(1) m, of py py] that(2) by auto
  show ?case
  proof (intro conjI allI impI)
    show "length (fade_row n b py (Suc m) data) = length data"
      using len by (simp add: step)
  next
    fix px assume px: "px < n"
    show "fade_row n b py (Suc m) data ! (pixel_idx n px py + 3)
            = (if px < Suc m then faded_byte n b px py (data ! (pixel_idx n px py + 3))
               else data ! (pixel_idx n px py + 3))"
    proof (cases "px = m")
      case True
      then show ?thesis using i old by (simp add: step)
    next
      case False
      then show ?thesis using ne[OF px False] a[OF px] by (auto simp add: step)
    qed
  next
    fix j assume j: "\<forall>px<Suc m. j \<noteq> pixel_idx n px py + 3"
    then have "j \<noteq> ?i" by simp
    moreover have "?d ! j = data ! j" using j by (intro b) simp
    ultimately show "fade_row n b py (Suc m) data ! j = data ! j"
      by (simp add: step)
  qed
qed

lemma fade_rows_Suc: "fade_rows n b (Suc m) data = fade_row n b m n (fade_rows n b m data)"
  by (simp add: fade_rows_def)

lemma fade_rows_invariant:
  assumes "length data = 4 * n * n"
  shows "m \<le> n \<Longrightarrow>
     length (fade_rows n b m data) = length data
     \<and> (\<forall>py<n. \<forall>px<n. fade_rows n b m data ! (pixel_idx n px py + 3)
            = (if py < m then faded_byte n b px py (data ! (pixel_idx n px py + 3))
               else data ! (pixel_idx n px py + 3)))
     \<and> (\<forall>j. (\<forall>py<m. \<forall>px<n. j \<noteq> pixel_idx n px py + 3) \<longrightarrow> fade_rows n b m data ! j = data ! j)"
proof (induction m)
  case 0
  then show ?case by (simp add: fade_rows_def)
next
  case (Suc m)
  let ?d = "fade_rows n b m data"
  from Suc have m: "m < n" and len: "length ?d = 4 * n * n"
    and a: "\<And>py px. py < n \<Longrightarrow> px < n \<Longrightarrow> ?d ! (pixel_idx n px py + 3)
            = (if py < m then faded_byte n b px py (data ! (pixel_idx n px py + 3))
               else data ! (pixel_idx n px py + 3))"
    and b: "\<And>j. (\<forall>py<m. \<forall>px<n. j \<noteq> pixel_idx n px py + 3) \<Longrightarrow> ?d ! j = data ! j"
    using assms by simp_all
  note row = fade_row_invariant[OF m len, of n b, simplified]
  have rlen: "length (fade_row n b m n ?d) = length ?d"
    and ra: "\<And>px. px < n \<Longrightarrow> fade_row n b m n ?d ! (pixel_idx n px m + 3)
               = faded_byte n b px m (?d ! (pixel_idx n px m + 3))"
    and rb: "\<And>j. (\<forall>px<n. j \<noteq> pixel_idx n px m + 3) \<Longrightarrow> fade_row n b m n ?d ! j = ?d ! j"
    using row by simp_all
  show ?case
  proof (intro conjI allI impI)
    show "length (fade_rows n b (Suc m) data) = length data"
      using rlen len assms by (simp add: fade_rows_Suc)
  next
    fix py px assume p: "py < n" "px < n"
    show "fade_rows n b (Suc m) data ! (pixel_idx n px py + 3)
            = (if py < Suc m then faded_byte n b px py (data ! (pixel_idx n px py + 3))
               else data ! (pixel_idx n px py + 3))"
    proof (cases "py = m")
      case True
      then show ?thesis using ra[OF p(2)] a[OF p] by (simp add: fade_rows_Suc)
    next
      case False
      have "\<forall>px'<n. pixel_idx n px py + 3 \<noteq> pixel_idx n px' m + 3"
        using pixel_idx_inj[OF p(2), of _ py m] False by auto
      then have "fade_row n b m n ?d ! (pixel_idx n px py + 3) = ?d ! (pixel_idx n px py + 3)"
        by (rule rb)
      then show ?thesis using a[OF p] False by (auto simp add: fade_rows_Suc)
    qed
  next
    fix j assume j: "\<forall>py<Suc m. \<forall>px<n. j \<noteq> pixel_idx n px py + 3"
    then have "fade_row n b m n ?d ! j = ?d ! j" by (intro rb) simp
    moreover have "?d ! j = data ! j" using j by (intro b) simp
    ultimately show "fade_rows n b (Suc m) data ! j = data ! j"
      by (simp add: fade_rows_Suc)
  qed
qed

lemma createFadedTexture_rows:
  "createFadedTexture n w h z data = fade_rows n (image_placement n w h z) n data"
  by (simp add: createFadedTexture_def fade_rows_def fade_row_def Let_def)

lemma createFadedTexture_alpha:
  assumes "length data = 4 * n * n" "px < n" "py < n"
  shows "createFadedTexture n w h z data ! (pixel_idx n px py + 3)
           = faded_byte n (image_placement n w h z) px py (data ! (pixel_idx n px py + 3))"
    and "length (createFadedTexture n w h z data) = length data"
  using fade_rows_invariant[OF assms(1), of n "image_placement n w h z"] assms(2,3)
  by (simp_all add: createFadedTexture_rows)

text \<open>The ratio of a pixel is a number that is not negative, and the final alpha is in the unit interval.\<close>

lemma pixel_ratio_finite:
  assumes "px < n" "py < n" "real n \<le> 2 ^ 53"
  shows "\<exists>r. pixel_ratio n px py = Finite r \<and> 0 \<le> r"
proof -
  have n1: "1 \<le> real n" using assms(1) by simp
  have "0 \<le> real n / 2" "real n / 2 \<le> 2 powi 52" using assms(3) by simp_all
  from to_double_le[OF this is_double_pow2] obtain c
    where c: "to_double (real n / 2) = Finite c" "0 \<le> c" "c \<le> 2 powi 52"
    by (auto simp add: overflow_threshold_def)
  have "2 powi (- 1) \<le> c"
    by (rule to_double_ge[OF _ _ is_double_pow2 c(1)]) (use n1 in \<open>simp_all add: power_int_minus\<close>)
  then have c0: "0 < c" "1 / 2 \<le> c" by (simp_all add: power_int_minus)
  have half: "divide_number (Finite (real n)) (Finite 2) = Finite c" by (simp add: c)
  have sq: "\<exists>s. square_number (minus_number (Finite (real q)) (Finite c)) = Finite s
        \<and> 0 \<le> s \<and> s \<le> 2 powi 106" if "q < n" for q
  proof -
    have "real q \<le> 2 ^ 53" using that assms(3) by simp
    then have "\<bar>real q - c\<bar> \<le> 2 powi 53" using c by simp
    from to_double_abs_le[OF this is_double_pow2] obtain d
      where d: "to_double (real q - c) = Finite d" "\<bar>d\<bar> \<le> 2 powi 53"
      by (auto simp add: overflow_threshold_def)
    have "\<bar>d\<bar> * \<bar>d\<bar> \<le> 2 powi 53 * 2 powi 53" using d(2) by (intro mult_mono) simp_all
    then have "0 \<le> d * d" "d * d \<le> 2 powi 106" by (simp_all add: abs_mult[symmetric])
    from to_double_le[OF this is_double_pow2] obtain s
      where "to_double (d * d) = Finite s" "0 \<le> s" "s \<le> 2 powi 106"
      by (auto simp add: overflow_threshold_def)
    then show ?thesis by (simp add: square_number_def d)
  qed
  from sq[OF assms(1)] obtain sx
    where sx: "square_number (minus_number (Finite (real px)) (Finite c)) = Finite sx"
      "0 \<le> sx" "sx \<le> 2 powi 106" by blast
  from sq[OF assms(2)] obtain sy
    where sy: "square_number (minus_number (Finite (real py)) (Finite c)) = Finite sy"
      "0 \<le> sy" "sy \<le> 2 powi 106" by blast
  have "0 \<le> sx + sy" "sx + sy \<le> 2 powi 107" using sx sy by simp_all
  from to_double_le[OF this is_double_pow2] obtain u
    where u: "to_double (sx + sy) = Finite u" "0 \<le> u" "u \<le> 2 powi 107"
    by (auto simp add: overflow_threshold_def)
  have "sqrt u \<le> sqrt ((2 ^ 54)\<^sup>2)" using u by (intro real_sqrt_le_mono) simp
  then have "0 \<le> sqrt u" "sqrt u \<le> 2 powi 54" using u(2) by simp_all
  from to_double_le[OF this is_double_pow2] obtain d
    where d: "to_double (sqrt u) = Finite d" "0 \<le> d" "d \<le> 2 powi 54"
    by (auto simp add: overflow_threshold_def)
  have "d / c \<le> 2 powi 54 / (1 / 2)" using d c0 by (intro frac_le) simp_all
  then have "0 \<le> d / c" "d / c \<le> 2 powi 55" using d(2) c0 by simp_all
  from to_double_le[OF this is_double_pow2] obtain r
    where r: "to_double (d / c) = Finite r" "0 \<le> r"
    by (auto simp add: overflow_threshold_def)
  have nn: "\<not> u < 0" "c \<noteq> 0" using u(2) c0 by simp_all
  have "pixel_ratio n px py = Finite r"
    unfolding pixel_ratio_def half Let_def sx sy by (simp add: u d r nn)
  with r show ?thesis by blast
qed

lemma finalAlpha_range:
  assumes "px < n" "py < n" "real n \<le> 2 ^ 53"
  shows "\<exists>c e f. circularAlpha (pixel_ratio n px py) = Finite c \<and> 0 \<le> c \<and> c \<le> 1
      \<and> edgeAlpha (featherSize_of n) (pixel_minEdgeDist b px py) = Finite e \<and> 0 \<le> e \<and> e \<le> 1
      \<and> finalAlpha n b px py = Finite f \<and> to_double (c * e) = Finite f \<and> 0 \<le> f \<and> f \<le> 1"
proof -
  from pixel_ratio_finite[OF assms] have "pixel_ratio n px py \<noteq> NaN" by auto
  from circularAlpha_range[OF this] obtain c
    where c: "circularAlpha (pixel_ratio n px py) = Finite c" "0 \<le> c" "c \<le> 1" by blast
  from edgeAlpha_range obtain e
    where e: "edgeAlpha (featherSize_of n) (pixel_minEdgeDist b px py) = Finite e" "0 \<le> e" "e \<le> 1"
    by blast
  have d1: "is_double 1" using is_double_int[of 1] by simp
  have "0 \<le> c * e" "c * e \<le> 1" using c e by (simp_all add: mult_le_one)
  from to_double_le[OF this d1] obtain f
    where f: "to_double (c * e) = Finite f" "0 \<le> f" "f \<le> 1"
    by (auto simp add: overflow_threshold_def)
  have "finalAlpha n b px py = Finite f" by (simp add: finalAlpha_def c e f)
  with c e f show ?thesis by blast
qed

text \<open>Bytes.\<close>

lemma byte_le: "unat (a :: 8 word) \<le> 255"
  using unsigned_less[of a, where 'a=nat] by simp

lemma unat_word_of_int_byte: "0 \<le> v \<Longrightarrow> v \<le> 255 \<Longrightarrow> unat (word_of_int v :: 8 word) = nat v"
  by (simp add: unsigned_of_int take_bit_int_eq_self)

lemma to_uint8_clamped_int:
  assumes "0 \<le> v" "v \<le> 255"
  shows "unat (to_uint8_clamped (Finite (of_int v))) = nat v"
proof -
  have "max 0 (min 255 (of_int v :: real)) = of_int v" using assms by simp
  then show ?thesis using assms by (simp add: round_even_of_int unat_word_of_int_byte)
qed

lemma faded_byte_floor:
  assumes "finalAlpha n b px py = Finite f" "0 \<le> f" "f \<le> 1"
  shows "\<exists>p. times_number (Finite (real (unat a))) (Finite f) = Finite p
           \<and> 0 \<le> p \<and> p \<le> real (unat a)
           \<and> faded_byte n b px py a = to_uint8_clamped (Finite (of_int \<lfloor>p\<rfloor>))
           \<and> int (unat (faded_byte n b px py a)) = \<lfloor>p\<rfloor>
           \<and> unat (faded_byte n b px py a) \<le> unat a"
proof -
  have "int (unat a) \<le> 255" using byte_le[of a] by linarith
  moreover have "(255::int) \<le> 2 ^ 53" by simp
  ultimately have "\<bar>int (unat a)\<bar> \<le> 2 ^ 53" by linarith
  from is_double_int[OF this] have da: "is_double (real (unat a))"
    by (simp only: of_int_of_nat_eq)
  have "real (unat a) \<le> real 255" using byte_le[of a] by (rule of_nat_mono)
  moreover have "real 255 \<le> 2 ^ 1000" by simp
  ultimately have "real (unat a) \<le> 2 ^ 1000" by (rule order_trans)
  then have oa: "real (unat a) < overflow_threshold" by (rule overflow_threshold_gt)
  have "0 \<le> real (unat a) * f"
    by (rule mult_nonneg_nonneg[OF of_nat_0_le_iff assms(2)])
  moreover have "real (unat a) * f \<le> real (unat a)"
    by (rule mult_left_le[OF assms(3) of_nat_0_le_iff])
  ultimately obtain p
    where p: "to_double (real (unat a) * f) = Finite p" "0 \<le> p" "p \<le> real (unat a)"
    using to_double_le[OF _ _ da oa] by blast
  have lo: "0 \<le> \<lfloor>p\<rfloor>" using p(2) by simp
  have hi: "\<lfloor>p\<rfloor> \<le> int (unat a)" using p(3) by (simp add: floor_le_iff)
  then have hi': "\<lfloor>p\<rfloor> \<le> 255" using byte_le[of a] by linarith
  have fb: "faded_byte n b px py a = to_uint8_clamped (Finite (of_int \<lfloor>p\<rfloor>))"
    unfolding faded_byte_def assms(1) times_number.simps p(1) Math_floor.simps ..
  have u: "unat (faded_byte n b px py a) = nat \<lfloor>p\<rfloor>"
    unfolding fb by (rule to_uint8_clamped_int[OF lo hi'])
  have "times_number (Finite (real (unat a))) (Finite f) = Finite p"
    unfolding times_number.simps p(1) ..
  moreover have "int (unat (faded_byte n b px py a)) = \<lfloor>p\<rfloor>" using u lo by simp
  moreover have "unat (faded_byte n b px py a) \<le> unat a" using u hi lo by linarith
  ultimately show ?thesis using p fb by blast
qed

lemma pixel_idx_mod: "(pixel_idx n px py + 3) mod 4 = 3"
proof -
  have "pixel_idx n px py + 3 = 3 + 4 * (py * n + px)" by (simp add: pixel_idx_def)
  then show ?thesis by (simp only: mod_mult_self2) simp
qed

lemma createFadedTexture_other:
  assumes "length data = 4 * n * n" "j mod 4 \<noteq> 3"
  shows "createFadedTexture n w h z data ! j = data ! j"
proof -
  have "\<forall>py<n. \<forall>px<n. j \<noteq> pixel_idx n px py + 3"
    using assms(2) pixel_idx_mod by metis
  then show ?thesis
    using fade_rows_invariant[OF assms(1), of n "image_placement n w h z"]
    by (simp add: createFadedTexture_rows)
qed

lemma size_bound:
  assumes "4 * n * n \<le> (2::nat) ^ 53"
  shows "real n \<le> 2 ^ 53"
proof -
  have "n \<le> 4 * n * n" by (cases n) simp_all
  with assms have "n \<le> 2 ^ 53" by linarith
  then have "real n \<le> real (2 ^ 53)" by (rule of_nat_mono)
  then show ?thesis by simp
qed

lemma featherSize_positive:
  assumes "0 < n" "real n \<le> 2 ^ 53"
  shows "\<exists>f. featherSize_of n = Finite f \<and> 0 < f"
proof -
  define l :: real where "l = 5764607523034235 / 2 ^ 56"
  have dl: "is_double l" unfolding l_def
    by (rule is_doubleI[of _ 5764607523034235 "- 56"]) (simp_all add: power_int_minus)
  have l: "0 < l" "l \<le> 1" by (simp_all add: l_def)
  have n1: "1 \<le> real n" using assms(1) by simp
  have "real n * l \<le> 2 ^ 53 * 1" using assms(2) l by (intro mult_mono) simp_all
  then have b: "0 \<le> real n * l" "real n * l \<le> 2 powi 53" using l by simp_all
  from to_double_le[OF b is_double_pow2] obtain f
    where f: "to_double (real n * l) = Finite f"
    by (auto simp add: overflow_threshold_def)
  have "l * 1 \<le> real n * l" using n1 l by simp
  then have "l \<le> real n * l" by simp
  from to_double_ge[OF _ this dl f] l have "0 < f" by simp
  moreover have "featherSize_of n = Finite f"
    unfolding featherSize_of_def literal_0_08 l_def[symmetric] by (simp add: f)
  ultimately show ?thesis by blast
qed

subsection \<open>Configuration migration\<close>

declare index_key.simps [simp del]

lemma slot_object_keys: "map fst (slot_object c) = slot_fields"
  by (simp add: slot_object_def slot_fields_def)

lemma slot_object_None: "map_of (slot_object c) k = None \<longleftrightarrow> k \<notin> set slot_fields"
proof -
  have "map_of (slot_object c) k = None \<longleftrightarrow> k \<notin> fst ` set (slot_object c)"
    by (rule map_of_eq_None_iff)
  also have "fst ` set (slot_object c) = set (map fst (slot_object c))" by simp
  finally show ?thesis unfolding slot_object_keys .
qed

lemma slot_object_positionIndex:
  "map_of (slot_object c) ''positionIndex'' = Some (JNum (of_int (positionIndex c)))"
  by (simp add: slot_object_def)

lemma index_key_last: "last (index_key n) = char_of (48 + n mod 10)"
  by (subst index_key.simps) simp

lemma index_key_not_positionIndex: "index_key n \<noteq> ''positionIndex''"
proof
  assume "index_key n = ''positionIndex''"
  then have "last (index_key n) = CHR ''x''" by simp
  then have "of_char (char_of (48 + n mod 10)) = (of_char CHR ''x'' :: nat)"
    by (simp only: index_key_last)
  then have e: "(48 + n mod 10) mod 256 = (120 :: nat)" by (simp add: of_char_of)
  have "n mod 10 < 10" by simp
  then have "(48 + n mod 10) mod 256 = 48 + n mod 10" by (intro mod_less) linarith
  with e \<open>n mod 10 < 10\<close> show False by linarith
qed

lemma map_of_index_keys: "map_of (zip (map index_key ns) vs) ''positionIndex'' = None"
proof -
  have "''positionIndex'' \<notin> set (map index_key ns)"
  proof
    assume "''positionIndex'' \<in> set (map index_key ns)"
    then obtain n where "index_key n = ''positionIndex''" by auto
    then show False using index_key_not_positionIndex by blast
  qed
  then have "''positionIndex'' \<notin> fst ` set (zip (map index_key ns) vs)"
    by (auto dest: set_zip_leftD)
  then show ?thesis by (simp add: map_of_eq_None_iff)
qed

lemma own_props_positionIndex: "map_of (own_props s) ''positionIndex'' = get_prop s ''positionIndex''"
proof (cases s)
  case (JArr xs)
  then show ?thesis using map_of_index_keys[of "[0..<length xs]" xs] by simp
next
  case (JStr t)
  then show ?thesis
    using map_of_index_keys[of "[0..<length t]" "map (\<lambda>c. JStr [c]) t"] by simp
qed simp_all


lemma nullish_or_value: "v \<noteq> JNull \<Longrightarrow> nullish_or (Some v) d = v"
  by (cases v) simp_all

lemma nullish_or_idem: "nullish_or p (nullish_or p d) = nullish_or p d"
proof (cases p)
  case (Some v)
  then show ?thesis by (cases v) simp_all
qed simp

lemma migrateSlot_kept:
  "map_of (own_props s) k = Some v \<Longrightarrow> k \<noteq> ''positionIndex'' \<Longrightarrow> migrateSlot s dp k = Some v"
  by (simp add: migrateSlot_def map_add_def)

lemma migrateSlot_backfill:
  "map_of (own_props s) k = None \<Longrightarrow> k \<noteq> ''positionIndex'' \<Longrightarrow>
     migrateSlot s dp k = map_of (slot_object DEFAULT_SLOT_CONFIG) k"
  by (simp add: migrateSlot_def map_add_def)

lemma migrateSlot_positionIndex:
  "migrateSlot s dp ''positionIndex'' = Some (nullish_or (get_prop s ''positionIndex'') dp)"
  by (simp add: migrateSlot_def)

lemma migrateSlot_present: "k \<in> set slot_fields \<Longrightarrow> migrateSlot s dp k \<noteq> None"
proof (cases "k = ''positionIndex''")
  case True
  then show ?thesis by (simp add: migrateSlot_positionIndex)
next
  case False
  assume "k \<in> set slot_fields"
  then have "map_of (slot_object DEFAULT_SLOT_CONFIG) k \<noteq> None"
    by (simp add: slot_object_None)
  with False show ?thesis
    by (cases "map_of (own_props s) k") (simp_all add: migrateSlot_kept migrateSlot_backfill)
qed

lemma falsy_no_prop: "\<not> truthy d \<Longrightarrow> optional_prop d key = None"
  by (cases d) (simp_all add: optional_prop_def)

lemma truthy_optional_prop: "truthy d \<Longrightarrow> optional_prop d key = get_prop d key"
  by (cases d) (simp_all add: optional_prop_def)

lemma dream_positionIndex:
  "migrateSlot (or_else (Some d) (JObj [])) (nullish_or (optional_prop d ''positionIndex'') x)
      ''positionIndex''
    = Some (nullish_or (optional_prop d ''positionIndex'') x)"
proof (cases "truthy d")
  case True
  then show ?thesis
    by (simp add: or_else_def migrateSlot_positionIndex truthy_optional_prop nullish_or_idem)
next
  case False
  then show ?thesis
    by (simp add: or_else_def migrateSlot_positionIndex falsy_no_prop)
qed

lemma dream_slot:
  "migrateSlot (or_else (Some d) (JObj [])) (nullish_or (optional_prop d ''positionIndex'') x)
    = migrateSlot (or_else (Some d) (JObj [])) x"
proof (cases "truthy d")
  case True
  then show ?thesis
    by (simp add: or_else_def migrateSlot_def truthy_optional_prop nullish_or_idem)
next
  case False
  then show ?thesis
    by (simp add: or_else_def migrateSlot_def falsy_no_prop)
qed

lemma migrate_Inr:
  assumes "data \<noteq> JNull" "or_else (get_prop data ''dreams'') (JArr []) = JArr ds"
  shows "migrateConfigWithDefaults data =
    Inr \<lparr>migrated_core = migrateSlot (or_else (get_prop data ''core'') (JObj [])) (JNum (- 1)),
         migrated_dreams = map (\<lambda>(d, i). migrateSlot (or_else (Some d) (JObj [])) (JNum (real i)))
                             (zip ds [0..<length ds])\<rparr>"
  using assms by (simp add: migrateConfigWithDefaults_def dream_slot)

lemma migrated_dreams_positionIndex:
  "map (\<lambda>m. m ''positionIndex'')
      (map (\<lambda>(d, i). migrateSlot (or_else (Some d) (JObj [])) (JNum (real i))) (zip ds ns))
    = map (\<lambda>(d, i). Some (nullish_or (optional_prop d ''positionIndex'') (JNum (real i))))
        (zip ds ns)"
proof -
  have "migrateSlot (or_else (Some d) (JObj [])) x ''positionIndex''
          = Some (nullish_or (optional_prop d ''positionIndex'') x)" for d x
    using dream_positionIndex[of d x] by (simp only: dream_slot)
  then show ?thesis by (simp add: case_prod_unfold)
qed

lemma stored_positions_kept:
  assumes "\<forall>d \<in> set ds. \<exists>v. optional_prop d ''positionIndex'' = Some v \<and> v \<noteq> JNull"
    and "length ns = length ds"
  shows "map (\<lambda>(d, i). Some (nullish_or (optional_prop d ''positionIndex'') (JNum (real i))))
           (zip ds ns)
         = map (\<lambda>d. optional_prop d ''positionIndex'') ds"
proof -
  have "map (\<lambda>(d, i). Some (nullish_or (optional_prop d ''positionIndex'') (JNum (real i))))
           (zip ds ns)
      = map (\<lambda>(d, i). optional_prop d ''positionIndex'') (zip ds ns)"
  proof (rule map_cong[OF refl])
    fix p assume "p \<in> set (zip ds ns)"
    then have "fst p \<in> set ds" by (metis in_set_zipE prod.collapse)
    with assms(1) obtain v where "optional_prop (fst p) ''positionIndex'' = Some v" "v \<noteq> JNull"
      by blast
    then show "(case p of (d, i) \<Rightarrow> Some (nullish_or (optional_prop d ''positionIndex'') (JNum (real i))))
        = (case p of (d, i) \<Rightarrow> optional_prop d ''positionIndex'')"
      by (simp add: case_prod_unfold nullish_or_value)
  qed
  also have "\<dots> = map (\<lambda>d. optional_prop d ''positionIndex'') (map fst (zip ds ns))"
    by (simp add: case_prod_unfold comp_def)
  also have "map fst (zip ds ns) = ds"
    using assms(2) by simp
  finally show ?thesis .
qed

lemma migrateSlot_complete:
  "migrateSlot (JObj (slot_object x)) dp = map_of (slot_object x)"
proof
  fix k
  show "migrateSlot (JObj (slot_object x)) dp k = map_of (slot_object x) k"
  proof (cases "k = ''positionIndex''")
    case True
    then show ?thesis
      by (simp add: migrateSlot_positionIndex slot_object_positionIndex)
  next
    case False
    show ?thesis
    proof (cases "map_of (slot_object x) k")
      case None
      then have "map_of (slot_object DEFAULT_SLOT_CONFIG) k = None"
        by (simp add: slot_object_None)
      with None False show ?thesis
        by (simp add: migrateSlot_backfill)
    next
      case (Some v)
      with False show ?thesis by (simp add: migrateSlot_kept)
    qed
  qed
qed

lemma migrate_round_trip:
  "migrateConfigWithDefaults (config_document c) =
     Inr \<lparr>migrated_core = map_of (slot_object (core c)),
          migrated_dreams = map (\<lambda>d. map_of (slot_object d)) (dreams c)\<rparr>"
proof -
  let ?ds = "map (\<lambda>d. JObj (slot_object d)) (dreams c)"
  have 1: "config_document c \<noteq> JNull"
    and 2: "or_else (get_prop (config_document c) ''dreams'') (JArr []) = JArr ?ds"
    and 3: "or_else (get_prop (config_document c) ''core'') (JObj []) = JObj (slot_object (core c))"
    by (simp_all add: config_document_def or_else_def)
  have "map (\<lambda>(d, i). migrateSlot (or_else (Some d) (JObj [])) (JNum (real i)))
          (zip ?ds [0..<length ?ds])
        = map (\<lambda>d. map_of (slot_object d)) (dreams c)"
    by (rule nth_equalityI) (simp_all add: or_else_def migrateSlot_complete)
  then show ?thesis
    by (simp only: migrate_Inr[OF 1 2] 3 migrateSlot_complete)
qed

text \<open>When the migration throws.\<close>

lemma migrate_throws:
  "(migrateConfigWithDefaults data = Inl TypeError)
     = (data = JNull
        \<or> (\<exists>v. get_prop data ''dreams'' = Some v \<and> truthy v \<and> (\<forall>ds. v \<noteq> JArr ds)))"
proof (cases "data = JNull")
  case True
  then show ?thesis by (simp add: migrateConfigWithDefaults_def)
next
  case False
  show ?thesis
  proof (cases "get_prop data ''dreams''")
    case None
    with False show ?thesis by (simp add: migrateConfigWithDefaults_def or_else_def)
  next
    case (Some v)
    with False show ?thesis
      by (cases v) (auto simp add: migrateConfigWithDefaults_def or_else_def Let_def)
  qed
qed


text \<open>
  Claim C8, as stated, at a document whose second dream slot has no \<^verbatim>\<open>positionIndex\<close>:
  the missing field is not backfilled from \<^verbatim>\<open>DEFAULT_SLOT_CONFIG\<close> (which has 0) but
  with the index 1 of the slot in the array, and the migrated dream slots then share
  the position 1 although no two stored slots had the same \<^verbatim>\<open>positionIndex\<close>.
\<close>

theorem migrate_dream_position_counterexample:
  "map (\<lambda>m. m ''positionIndex'')
     (case migrateConfigWithDefaults example_document of
        Inl e \<Rightarrow> [] | Inr cfg \<Rightarrow> migrated_dreams cfg)
     = [Some (JNum 1), Some (JNum 1)]
   \<and> map (\<lambda>d. get_prop d ''positionIndex'')
         [JObj [(''positionIndex'', JNum 1), (''zoom'', JNum 2)], JObj [(''image'', JStr ''imgB'')]]
       = [Some (JNum 1), None]
   \<and> map_of (slot_object DEFAULT_SLOT_CONFIG) ''positionIndex'' = Some (JNum 0)"
  by (simp add: migrateConfigWithDefaults_def example_document_def or_else_def
        optional_prop_def migrateSlot_def slot_object_def DEFAULT_SLOT_CONFIG_def)

text \<open>
  Claim C8, amended. For every persisted document other than \<^verbatim>\<open>null\<close> whose
  \<^verbatim>\<open>dreams\<close> entry is an array or is missing or falsy, \<^verbatim>\<open>migrateConfigWithDefaults\<close>
  yields a configuration in which every \<^verbatim>\<open>SlotConfig\<close> field of every slot is present;
  any other truthy \<^verbatim>\<open>dreams\<close> entry makes it throw a \<^verbatim>\<open>TypeError\<close>, and so does the
  document \<^verbatim>\<open>null\<close>, and nothing else does. In a migrated slot a property
  of the stored slot keeps its stored value, except a \<^verbatim>\<open>positionIndex\<close> stored as
  \<^verbatim>\<open>null\<close>, which counts as missing; a missing field other than \<^verbatim>\<open>positionIndex\<close> is
  backfilled from \<^verbatim>\<open>DEFAULT_SLOT_CONFIG\<close>; a missing \<^verbatim>\<open>positionIndex\<close> becomes \<open>-1\<close> in
  the core slot and the index of the slot in the \<^verbatim>\<open>dreams\<close> array in a dream slot. If
  every stored dream slot has a \<^verbatim>\<open>positionIndex\<close> and these are pairwise distinct,
  the migrated dream slots have the same, pairwise distinct, values. Migrating the
  document of a complete configuration returns that configuration unchanged.
\<close>

theorem migrateConfigWithDefaults_backfills:
  "(\<forall>k v. map_of (own_props slot) k = Some v \<and> (k = ''positionIndex'' \<longrightarrow> v \<noteq> JNull)
       \<longrightarrow> migrateSlot slot dp k = Some v)
   \<and> (\<forall>k. map_of (own_props slot) k = None \<and> k \<noteq> ''positionIndex''
       \<longrightarrow> migrateSlot slot dp k = map_of (slot_object DEFAULT_SLOT_CONFIG) k)
   \<and> (get_prop slot ''positionIndex'' = None \<or> get_prop slot ''positionIndex'' = Some JNull
       \<longrightarrow> migrateSlot slot dp ''positionIndex'' = Some dp)
   \<and> (\<forall>k \<in> set slot_fields. migrateSlot slot dp k \<noteq> None)
   \<and> (data \<noteq> JNull \<and> or_else (get_prop data ''dreams'') (JArr []) = JArr ds \<longrightarrow>
        (\<exists>cfg. migrateConfigWithDefaults data = Inr cfg
           \<and> migrated_core cfg
               = migrateSlot (or_else (get_prop data ''core'') (JObj [])) (JNum (- 1))
           \<and> length (migrated_dreams cfg) = length ds
           \<and> (\<forall>i < length ds. migrated_dreams cfg ! i
                 = migrateSlot (or_else (Some (ds ! i)) (JObj [])) (JNum (real i)))
           \<and> (\<forall>m \<in> set (migrated_core cfg # migrated_dreams cfg).
                 \<forall>k \<in> set slot_fields. m k \<noteq> None)
           \<and> ((\<forall>d \<in> set ds. \<exists>v. optional_prop d ''positionIndex'' = Some v \<and> v \<noteq> JNull)
                \<and> distinct (map (\<lambda>d. optional_prop d ''positionIndex'') ds)
               \<longrightarrow> map (\<lambda>m. m ''positionIndex'') (migrated_dreams cfg)
                     = map (\<lambda>d. optional_prop d ''positionIndex'') ds
                   \<and> distinct (map (\<lambda>m. m ''positionIndex'') (migrated_dreams cfg)))))
   \<and> migrateConfigWithDefaults (config_document c)
       = Inr \<lparr>migrated_core = map_of (slot_object (core c)),
              migrated_dreams = map (\<lambda>d. map_of (slot_object d)) (dreams c)\<rparr>
   \<and> (migrateConfigWithDefaults data = Inl TypeError)
       = (data = JNull
          \<or> (\<exists>v. get_prop data ''dreams'' = Some v \<and> truthy v \<and> (\<forall>ds. v \<noteq> JArr ds)))"
proof (intro conjI allI impI ballI)
  fix k v
  assume a: "map_of (own_props slot) k = Some v \<and> (k = ''positionIndex'' \<longrightarrow> v \<noteq> JNull)"
  show "migrateSlot slot dp k = Some v"
  proof (cases "k = ''positionIndex''")
    case True
    with a have "get_prop slot ''positionIndex'' = Some v" "v \<noteq> JNull"
      by (simp_all add: own_props_positionIndex)
    with True show ?thesis
      by (simp add: migrateSlot_positionIndex nullish_or_value)
  next
    case False
    with a show ?thesis by (simp add: migrateSlot_kept)
  qed
next
  fix k
  assume "map_of (own_props slot) k = None \<and> k \<noteq> ''positionIndex''"
  then show "migrateSlot slot dp k = map_of (slot_object DEFAULT_SLOT_CONFIG) k"
    by (simp add: migrateSlot_backfill)
next
  assume "get_prop slot ''positionIndex'' = None \<or> get_prop slot ''positionIndex'' = Some JNull"
  then show "migrateSlot slot dp ''positionIndex'' = Some dp"
    by (auto simp add: migrateSlot_positionIndex)
next
  fix k assume "k \<in> set slot_fields"
  then show "migrateSlot slot dp k \<noteq> None" by (rule migrateSlot_present)
next
  assume h: "data \<noteq> JNull \<and> or_else (get_prop data ''dreams'') (JArr []) = JArr ds"
  let ?core = "migrateSlot (or_else (get_prop data ''core'') (JObj [])) (JNum (- 1))"
  let ?dreams = "map (\<lambda>(d, i). migrateSlot (or_else (Some d) (JObj [])) (JNum (real i)))
                   (zip ds [0..<length ds])"
  let ?cfg = "\<lparr>migrated_core = ?core, migrated_dreams = ?dreams\<rparr>"
  have r: "migrateConfigWithDefaults data = Inr ?cfg"
    using h by (intro migrate_Inr) simp_all
  have present: "\<forall>m \<in> set (?core # ?dreams). \<forall>k \<in> set slot_fields. m k \<noteq> None"
    using migrateSlot_present by (auto simp add: in_set_zip)
  have pos: "map (\<lambda>m. m ''positionIndex'') ?dreams
               = map (\<lambda>d. optional_prop d ''positionIndex'') ds"
    if "\<forall>d \<in> set ds. \<exists>v. optional_prop d ''positionIndex'' = Some v \<and> v \<noteq> JNull"
    using stored_positions_kept[OF that, of "[0..<length ds]"]
    by (simp only: migrated_dreams_positionIndex length_upt diff_zero)
  have body: "migrated_core ?cfg = ?core
           \<and> length (migrated_dreams ?cfg) = length ds
           \<and> (\<forall>i < length ds. migrated_dreams ?cfg ! i
                 = migrateSlot (or_else (Some (ds ! i)) (JObj [])) (JNum (real i)))
           \<and> (\<forall>m \<in> set (migrated_core ?cfg # migrated_dreams ?cfg).
                 \<forall>k \<in> set slot_fields. m k \<noteq> None)
           \<and> ((\<forall>d \<in> set ds. \<exists>v. optional_prop d ''positionIndex'' = Some v \<and> v \<noteq> JNull)
                \<and> distinct (map (\<lambda>d. optional_prop d ''positionIndex'') ds)
               \<longrightarrow> map (\<lambda>m. m ''positionIndex'') (migrated_dreams ?cfg)
                     = map (\<lambda>d. optional_prop d ''positionIndex'') ds
                   \<and> distinct (map (\<lambda>m. m ''positionIndex'') (migrated_dreams ?cfg)))"
    using present pos by simp
  show "\<exists>cfg. migrateConfigWithDefaults data = Inr cfg
           \<and> migrated_core cfg
               = migrateSlot (or_else (get_prop data ''core'') (JObj [])) (JNum (- 1))
           \<and> length (migrated_dreams cfg) = length ds
           \<and> (\<forall>i < length ds. migrated_dreams cfg ! i
                 = migrateSlot (or_else (Some (ds ! i)) (JObj [])) (JNum (real i)))
           \<and> (\<forall>m \<in> set (migrated_core cfg # migrated_dreams cfg).
                 \<forall>k \<in> set slot_fields. m k \<noteq> None)
           \<and> ((\<forall>d \<in> set ds. \<exists>v. optional_prop d ''positionIndex'' = Some v \<and> v \<noteq> JNull)
                \<and> distinct (map (\<lambda>d. optional_prop d ''positionIndex'') ds)
               \<longrightarrow> map (\<lambda>m. m ''positionIndex'') (migrated_dreams cfg)
                     = map (\<lambda>d. optional_prop d ''positionIndex'') ds
                   \<and> distinct (map (\<lambda>m. m ''positionIndex'') (migrated_dreams cfg)))"
    by (rule exI[of _ ?cfg], rule conjI[OF r body])
next
  show "migrateConfigWithDefaults (config_document c)
       = Inr \<lparr>migrated_core = map_of (slot_object (core c)),
              migrated_dreams = map (\<lambda>d. map_of (slot_object d)) (dreams c)\<rparr>"
    by (rule migrate_round_trip)
next
  show "(migrateConfigWithDefaults data = Inl TypeError)
       = (data = JNull
          \<or> (\<exists>v. get_prop data ''dreams'' = Some v \<and> truthy v \<and> (\<forall>ds. v \<noteq> JArr ds)))"
    by (rule migrate_throws)
qed

theorem migrateConfigWithDefaults_backfills_witness:
  "example_document \<noteq> JNull
   \<and> or_else (get_prop example_document ''dreams'') (JArr [])
       = JArr [JObj [(''positionIndex'', JNum 1), (''zoom'', JNum 2)],
               JObj [(''image'', JStr ''imgB'')]]
   \<and> (\<exists>cfg. migrateConfigWithDefaults example_document = Inr cfg
         \<and> migrated_core cfg ''image'' = Some (JStr ''imgA'')
         \<and> migrated_core cfg ''size'' = Some (JNum 1.2)
         \<and> migrated_core cfg ''zoom'' = Some (JNum 1)
         \<and> migrated_core cfg ''positionIndex'' = Some (JNum (- 1))
         \<and> length (migrated_dreams cfg) = 2
         \<and> (migrated_dreams cfg ! 0) ''positionIndex'' = Some (JNum 1)
         \<and> (migrated_dreams cfg ! 0) ''zoom'' = Some (JNum 2)
         \<and> (migrated_dreams cfg ! 1) ''positionIndex'' = Some (JNum 1)
         \<and> (migrated_dreams cfg ! 1) ''zoom'' = Some (JNum 1))
   \<and> distinct [Some (JNum 3), Some (JNum (7 :: real))]
   \<and> (\<exists>cfg. migrateConfigWithDefaults (config_document example_config) = Inr cfg
         \<and> map (\<lambda>m. m ''positionIndex'') (migrated_dreams cfg)
             = [Some (JNum 3), Some (JNum 7)]
         \<and> distinct (map (\<lambda>m. m ''positionIndex'') (migrated_dreams cfg)))
   \<and> get_prop (JObj [(''dreams'', JObj [])]) ''dreams'' = Some (JObj [])
   \<and> truthy (JObj [])
   \<and> migrateConfigWithDefaults (JObj [(''dreams'', JObj [])]) = Inl TypeError
   \<and> migrateConfigWithDefaults (JObj [(''dreams'', JNum 5)]) = Inl TypeError
   \<and> migrateConfigWithDefaults JNull = Inl TypeError
   \<and> migrateConfigWithDefaults example_document \<noteq> Inl TypeError
   \<and> migrateConfigWithDefaults (JObj [(''dreams'', JNum 0)]) \<noteq> Inl TypeError"
proof -
  let ?d0 = "JObj [(''positionIndex'', JNum 1), (''zoom'', JNum 2)]"
  let ?d1 = "JObj [(''image'', JStr ''imgB'')]"
  let ?core = "JObj [(''image'', JStr ''imgA''), (''size'', JNum 1.2)]"
  have h: "example_document \<noteq> JNull
      \<and> or_else (get_prop example_document ''dreams'') (JArr []) = JArr [?d0, ?d1]"
    and core: "or_else (get_prop example_document ''core'') (JObj []) = ?core"
    by (simp_all add: example_document_def or_else_def)
  note t = migrateConfigWithDefaults_backfills[of ?core "JNum (- 1)" example_document
      "[?d0, ?d1]" example_config]
  note E = t[THEN conjunct2, THEN conjunct2, THEN conjunct2, THEN conjunct2, THEN conjunct1]
  from mp[OF E h] obtain cfg where c:
    "migrateConfigWithDefaults example_document = Inr cfg
           \<and> migrated_core cfg
               = migrateSlot (or_else (get_prop example_document ''core'') (JObj [])) (JNum (- 1))
           \<and> length (migrated_dreams cfg) = length [?d0, ?d1]
           \<and> (\<forall>i < length [?d0, ?d1]. migrated_dreams cfg ! i
                 = migrateSlot (or_else (Some ([?d0, ?d1] ! i)) (JObj [])) (JNum (real i)))
           \<and> (\<forall>m \<in> set (migrated_core cfg # migrated_dreams cfg).
                 \<forall>k \<in> set slot_fields. m k \<noteq> None)
           \<and> ((\<forall>d \<in> set [?d0, ?d1]. \<exists>v. optional_prop d ''positionIndex'' = Some v \<and> v \<noteq> JNull)
                \<and> distinct (map (\<lambda>d. optional_prop d ''positionIndex'') [?d0, ?d1])
               \<longrightarrow> map (\<lambda>m. m ''positionIndex'') (migrated_dreams cfg)
                     = map (\<lambda>d. optional_prop d ''positionIndex'') [?d0, ?d1]
                   \<and> distinct (map (\<lambda>m. m ''positionIndex'') (migrated_dreams cfg)))" ..
  have cfg: "migrateConfigWithDefaults example_document = Inr cfg"
    "migrated_core cfg = migrateSlot ?core (JNum (- 1))"
    "length (migrated_dreams cfg) = 2"
    using c[THEN conjunct1] c[THEN conjunct2, THEN conjunct1]
      c[THEN conjunct2, THEN conjunct2, THEN conjunct1] core
    by simp_all
  have cfg4: "\<forall>i < length [?d0, ?d1]. migrated_dreams cfg ! i
        = migrateSlot (or_else (Some ([?d0, ?d1] ! i)) (JObj [])) (JNum (real i))"
    by (rule c[THEN conjunct2, THEN conjunct2, THEN conjunct2, THEN conjunct1])
  have d0: "migrated_dreams cfg ! 0 = migrateSlot ?d0 (JNum 0)"
    using cfg4[rule_format, of 0] by (simp add: or_else_def)
  have d1: "migrated_dreams cfg ! 1 = migrateSlot ?d1 (JNum 1)"
    using cfg4[rule_format, of 1] by (simp add: or_else_def)
  have first: "\<exists>cfg. migrateConfigWithDefaults example_document = Inr cfg
         \<and> migrated_core cfg ''image'' = Some (JStr ''imgA'')
         \<and> migrated_core cfg ''size'' = Some (JNum 1.2)
         \<and> migrated_core cfg ''zoom'' = Some (JNum 1)
         \<and> migrated_core cfg ''positionIndex'' = Some (JNum (- 1))
         \<and> length (migrated_dreams cfg) = 2
         \<and> (migrated_dreams cfg ! 0) ''positionIndex'' = Some (JNum 1)
         \<and> (migrated_dreams cfg ! 0) ''zoom'' = Some (JNum 2)
         \<and> (migrated_dreams cfg ! 1) ''positionIndex'' = Some (JNum 1)
         \<and> (migrated_dreams cfg ! 1) ''zoom'' = Some (JNum 1)"
    apply (rule exI[of _ cfg])
    unfolding cfg(2) d0 d1
    using cfg(1,3)
    by (simp add: migrateSlot_def slot_object_def DEFAULT_SLOT_CONFIG_def)
  have "migrateConfigWithDefaults (config_document example_config)
       = Inr \<lparr>migrated_core = map_of (slot_object (core example_config)),
              migrated_dreams = map (\<lambda>d. map_of (slot_object d)) (dreams example_config)\<rparr>"
    by (rule t[THEN conjunct2, THEN conjunct2, THEN conjunct2, THEN conjunct2, THEN conjunct2,
          THEN conjunct1])
  then have second: "\<exists>cfg. migrateConfigWithDefaults (config_document example_config) = Inr cfg
         \<and> map (\<lambda>m. m ''positionIndex'') (migrated_dreams cfg)
             = [Some (JNum 3), Some (JNum 7)]
         \<and> distinct (map (\<lambda>m. m ''positionIndex'') (migrated_dreams cfg))"
    by (simp add: example_config_def slot_object_def DEFAULT_SLOT_CONFIG_def)
  note throws = migrateConfigWithDefaults_backfills[THEN conjunct2, THEN conjunct2,
      THEN conjunct2, THEN conjunct2, THEN conjunct2, THEN conjunct2]
  have third: "migrateConfigWithDefaults (JObj [(''dreams'', JObj [])]) = Inl TypeError"
    "migrateConfigWithDefaults (JObj [(''dreams'', JNum 5)]) = Inl TypeError"
    "migrateConfigWithDefaults JNull = Inl TypeError"
    "migrateConfigWithDefaults example_document \<noteq> Inl TypeError"
    "migrateConfigWithDefaults (JObj [(''dreams'', JNum 0)]) \<noteq> Inl TypeError"
    unfolding throws by (simp_all add: example_document_def)
  from h first second third show ?thesis by simp
qed

end
